theory Spec2Isabelle
  imports Main
begin

section \<open>Data model (server/db/schema.ts)\<close>

datatype ImageStyle = AiPhoto | TextCard

datatype PostStatus = Draft | Approved | Rejected | Posted

datatype ToneOption = Formal | Friendly | Spicy | Minimal

text \<open>
  A \<^verbatim>\<open>Date\<close> is a point in time, here a natural number. The ISO string that
  \<^verbatim>\<open>toISOString()\<close> makes of a date determines the date, so the \<^verbatim>\<open>createdAt\<close>
  string of a variation is modelled by the date it prints.
\<close>

type_synonym date = nat

text \<open>
  \<^verbatim>\<open>interface TextVariation\<close> and \<^verbatim>\<open>interface ImageVariation\<close>. The field
  names carry a prefix, since \<^verbatim>\<open>id\<close>, \<^verbatim>\<open>feedback\<close>, \<^verbatim>\<open>createdAt\<close> and
  \<^verbatim>\<open>accepted\<close> occur in both.
\<close>

record TextVariation =
  tv_id :: string
  tv_hook :: string
  tv_caption :: string
  tv_hashtags :: "string list"
  tv_feedback :: string
  tv_tone :: "ToneOption option"
  tv_createdAt :: date
  tv_accepted :: bool

record ImageVariation =
  iv_id :: string
  iv_imagePrompt :: string
  iv_imageUrl :: "string option"
  iv_imageKey :: "string option"
  iv_feedback :: string
  iv_createdAt :: date
  iv_accepted :: bool

text \<open>
  \<^verbatim>\<open>interface VariationHistory\<close>. services/posts.ts obtains such an object by
  \<^verbatim>\<open>JSON.parse(historyStr) as VariationHistory\<close>, a cast that checks nothing, so
  either array may be missing from the object that was read: a field is \<open>None\<close> when
  the object has no array under that key. The entries of an array are taken to have
  the shape the interface states.
\<close>

record VariationHistory =
  textVariations :: "TextVariation list option"
  imageVariations :: "ImageVariation list option"

text \<open>
  A text column that holds JSON is modelled by what \<^verbatim>\<open>JSON.parse\<close> makes of it:
  the empty string (falsy in JavaScript), a text on which \<^verbatim>\<open>JSON.parse\<close> throws a
  \<^verbatim>\<open>SyntaxError\<close>, or a text that parses to a value. \<^verbatim>\<open>JSON.stringify v\<close> is
  then \<open>Json v\<close>.
\<close>

datatype 'a json_text = EmptyText | Unparseable | Json 'a

text \<open>
  The value a history text parses to: an object, or \<^verbatim>\<open>null\<close>, a number, a string,
  a boolean or an array, none of which has a \<^verbatim>\<open>textVariations\<close> or
  \<^verbatim>\<open>imageVariations\<close> array.
\<close>

datatype history_value = NonObject | Object VariationHistory

text \<open>
  A row of the \<^verbatim>\<open>posts\<close> table. \<^verbatim>\<open>id\<close> is \<open>post_id\<close> here. The relations
  \<^verbatim>\<open>creator\<close>, \<^verbatim>\<open>approver\<close>, \<^verbatim>\<open>rejector\<close>, \<^verbatim>\<open>poster\<close> that
  \<^verbatim>\<open>getPost\<close> joins from the user table are left out. The \<^verbatim>\<open>hashtags\<close>
  text, where it parses, is taken to parse to an array of strings, which is what
  \<^verbatim>\<open>JSON.stringify\<close> of the hashtags wrote there.
\<close>

record Post =
  post_id :: string
  pillar :: string
  mainIdea :: string
  hook :: string
  caption :: string
  hashtags :: "string list json_text option"
  imageStyle :: ImageStyle
  imagePrompt :: string
  imageUrl :: "string option"
  imageKey :: "string option"
  status :: PostStatus
  batchId :: string
  history :: "history_value json_text option"
  createdBy :: "string option"
  approvedBy :: "string option"
  rejectedBy :: "string option"
  postedBy :: "string option"
  createdAt :: date
  updatedAt :: date

section \<open>Errors and program state (server/services/posts.ts)\<close>

text \<open>
  \<open>Error msg\<close> is \<^verbatim>\<open>new Error(msg)\<close>; \<open>TypeError\<close> is what a property access on
  \<^verbatim>\<open>null\<close> or \<^verbatim>\<open>undefined\<close>, or a call of something that is not a function,
  throws; \<open>SyntaxError\<close> is what \<^verbatim>\<open>JSON.parse\<close> throws.
\<close>

datatype error = Error string | TypeError | SyntaxError

definition NotFound :: error where
  "NotFound = Error ''Post not found''"

definition VariationNotFound :: error where
  "VariationNotFound = Error ''Variation not found''"

text \<open>
  The state holds the \<^verbatim>\<open>posts\<close> table, keyed by its primary key, and the
  module-level object \<^verbatim>\<open>const emptyHistory\<close> of services/posts.ts. The object is
  created once, when the module is loaded, and lives as long as the process:
  \<^verbatim>\<open>parseHistory\<close> hands out the object itself, not a copy, and the operations
  mutate what they are handed.
\<close>

record state =
  db :: "string \<rightharpoonup> Post"
  emptyHistory :: VariationHistory

definition initial_emptyHistory :: VariationHistory where
  "initial_emptyHistory = \<lparr>textVariations = Some [], imageVariations = Some []\<rparr>"

definition getPost :: "state \<Rightarrow> string \<Rightarrow> Post option" where
  "getPost s pid = db s pid"

text \<open>\<^verbatim>\<open>db.update(posts).set(...).where(eq(posts.id, id))\<close>: no row, no change.\<close>

definition update_posts :: "string \<Rightarrow> (Post \<Rightarrow> Post) \<Rightarrow> state \<Rightarrow> state" where
  "update_posts pid f s =
     (case db s pid of
        None \<Rightarrow> s
      | Some p \<Rightarrow> s\<lparr>db := (db s)(pid \<mapsto> f p)\<rparr>)"

subsection \<open>Status changes\<close>

definition approvePost :: "string \<Rightarrow> string option \<Rightarrow> date \<Rightarrow> state \<Rightarrow> (error + Post option) \<times> state" where
  "approvePost pid user now s =
     (let s' = update_posts pid (\<lambda>p. p\<lparr>status := Approved, approvedBy := user, updatedAt := now\<rparr>) s
      in (Inr (getPost s' pid), s'))"

definition rejectPost :: "string \<Rightarrow> string option \<Rightarrow> date \<Rightarrow> state \<Rightarrow> (error + Post option) \<times> state" where
  "rejectPost pid user now s =
     (let s' = update_posts pid (\<lambda>p. p\<lparr>status := Rejected, rejectedBy := user, updatedAt := now\<rparr>) s
      in (Inr (getPost s' pid), s'))"

definition markPostAsPosted :: "string \<Rightarrow> string option \<Rightarrow> date \<Rightarrow> state \<Rightarrow> (error + Post option) \<times> state" where
  "markPostAsPosted pid user now s =
     (let s' = update_posts pid (\<lambda>p. p\<lparr>status := Posted, postedBy := user, updatedAt := now\<rparr>) s
      in (Inr (getPost s' pid), s'))"

subsection \<open>Delete\<close>

text \<open>
  \<^verbatim>\<open>deleteImageFromR2\<close> is a collaborator (services/images.ts): the parameter gives
  its outcome for a key. \<^verbatim>\<open>if (post?.imageKey)\<close> skips a missing post, a null key
  and the empty key; the \<^verbatim>\<open>catch\<close> logs the failure and goes on.
\<close>

definition deletePost :: "(string \<Rightarrow> error + unit) \<Rightarrow> string \<Rightarrow> state \<Rightarrow> (error + unit) \<times> state" where
  "deletePost deleteImageFromR2 pid s =
     (let post = getPost s pid;
          cleanup =
            (case post of
               None \<Rightarrow> Inr ()
             | Some p \<Rightarrow>
                 (case imageKey p of
                    None \<Rightarrow> Inr ()
                  | Some k \<Rightarrow>
                      if k = [] then Inr ()
                      else (case deleteImageFromR2 k of
                              Inl e \<Rightarrow> Inr ()
                            | Inr u \<Rightarrow> Inr ())))
      in case cleanup of
           Inl e \<Rightarrow> (Inl e, s)
         | Inr u \<Rightarrow> (Inr (), s\<lparr>db := (db s)(pid := None)\<rparr>))"

subsection \<open>Reading and mutating the history\<close>

text \<open>
  What \<^verbatim>\<open>parseHistory\<close> returns: the module's \<^verbatim>\<open>emptyHistory\<close> object itself, or
  the value that \<^verbatim>\<open>JSON.parse\<close> has just built.
\<close>

datatype history_ref = EmptyHistoryRef | FreshValue history_value

definition parseHistory :: "history_value json_text option \<Rightarrow> history_ref" where
  "parseHistory historyStr =
     (case historyStr of
        None \<Rightarrow> EmptyHistoryRef
      | Some EmptyText \<Rightarrow> EmptyHistoryRef
      | Some Unparseable \<Rightarrow> EmptyHistoryRef
      | Some (Json v) \<Rightarrow> FreshValue v)"

definition deref :: "state \<Rightarrow> history_ref \<Rightarrow> history_value" where
  "deref s r = (case r of EmptyHistoryRef \<Rightarrow> Object (emptyHistory s) | FreshValue v \<Rightarrow> v)"

text \<open>Writing a field of the object behind a reference.\<close>

definition assign :: "history_ref \<Rightarrow> VariationHistory \<Rightarrow> state \<Rightarrow> history_ref \<times> state" where
  "assign r h s =
     (case r of
        EmptyHistoryRef \<Rightarrow> (EmptyHistoryRef, s\<lparr>emptyHistory := h\<rparr>)
      | FreshValue v \<Rightarrow> (FreshValue (Object h), s))"

text \<open>\<^verbatim>\<open>history.textVariations\<close>, to call an array method on it.\<close>

definition read_textVariations :: "state \<Rightarrow> history_ref \<Rightarrow> error + TextVariation list" where
  "read_textVariations s r =
     (case deref s r of
        NonObject \<Rightarrow> Inl TypeError
      | Object h \<Rightarrow> (case textVariations h of None \<Rightarrow> Inl TypeError | Some tvs \<Rightarrow> Inr tvs))"

definition read_imageVariations :: "state \<Rightarrow> history_ref \<Rightarrow> error + ImageVariation list" where
  "read_imageVariations s r =
     (case deref s r of
        NonObject \<Rightarrow> Inl TypeError
      | Object h \<Rightarrow> (case imageVariations h of None \<Rightarrow> Inl TypeError | Some ivs \<Rightarrow> Inr ivs))"

text \<open>\<^verbatim>\<open>history.textVariations = tvs\<close> and \<^verbatim>\<open>history.imageVariations = ivs\<close>.\<close>

definition write_textVariations :: "TextVariation list \<Rightarrow> history_ref \<Rightarrow> state \<Rightarrow> history_ref \<times> state" where
  "write_textVariations tvs r s =
     (case deref s r of
        NonObject \<Rightarrow> (r, s)
      | Object h \<Rightarrow> assign r (h\<lparr>textVariations := Some tvs\<rparr>) s)"

definition write_imageVariations :: "ImageVariation list \<Rightarrow> history_ref \<Rightarrow> state \<Rightarrow> history_ref \<times> state" where
  "write_imageVariations ivs r s =
     (case deref s r of
        NonObject \<Rightarrow> (r, s)
      | Object h \<Rightarrow> assign r (h\<lparr>imageVariations := Some ivs\<rparr>) s)"

text \<open>\<^verbatim>\<open>history.textVariations.push(...records)\<close>: the array grows in place.\<close>

definition push_textVariations ::
  "TextVariation list \<Rightarrow> history_ref \<Rightarrow> state \<Rightarrow> error + history_ref \<times> state" where
  "push_textVariations records r s =
     (case read_textVariations s r of
        Inl e \<Rightarrow> Inl e
      | Inr tvs \<Rightarrow> Inr (write_textVariations (tvs @ records) r s))"

text \<open>\<^verbatim>\<open>history.imageVariations.push(entry)\<close>.\<close>

definition push_imageVariations ::
  "ImageVariation \<Rightarrow> history_ref \<Rightarrow> state \<Rightarrow> error + history_ref \<times> state" where
  "push_imageVariations entry r s =
     (case read_imageVariations s r of
        Inl e \<Rightarrow> Inl e
      | Inr ivs \<Rightarrow> Inr (write_imageVariations (ivs @ [entry]) r s))"

text \<open>\<^verbatim>\<open>JSON.stringify(history)\<close>.\<close>

definition stringify_history :: "state \<Rightarrow> history_ref \<Rightarrow> history_value json_text" where
  "stringify_history s r = Json (deref s r)"

subsection \<open>Accepting a text variation\<close>

definition acceptTextVariation :: "string \<Rightarrow> string \<Rightarrow> date \<Rightarrow> state \<Rightarrow> (error + Post option) \<times> state" where
  "acceptTextVariation postId variationId now s =
     (case getPost s postId of
        None \<Rightarrow> (Inl NotFound, s)
      | Some post \<Rightarrow>
          (let r = parseHistory (history post)
           in case read_textVariations s r of
                Inl e \<Rightarrow> (Inl e, s)
              | Inr tvs \<Rightarrow>
                  (case find (\<lambda>v. tv_id v = variationId) tvs of
                     None \<Rightarrow> (Inl VariationNotFound, s)
                   | Some variation \<Rightarrow>
                       (let (r1, s1) =
                              write_textVariations
                                (map (\<lambda>v. v\<lparr>tv_accepted := (tv_id v = variationId)\<rparr>) tvs) r s;
                            s2 = update_posts postId
                                   (\<lambda>p. p\<lparr>hook := tv_hook variation,
                                          caption := tv_caption variation,
                                          hashtags := Some (Json (tv_hashtags variation)),
                                          history := Some (stringify_history s1 r1),
                                          updatedAt := now\<rparr>) s1
                        in (Inr (getPost s2 postId), s2)))))"

subsection \<open>Generating text variations\<close>

text \<open>What the generator returns for one variation (\<^verbatim>\<open>textVariationOutputSchema\<close>).\<close>

record GeneratedText =
  gt_hook :: string
  gt_caption :: string
  gt_hashtags :: "string list"

text \<open>\<^verbatim>\<open>interface TextVariationResult\<close>.\<close>

record TextVariationResult =
  res_id :: string
  res_hook :: string
  res_caption :: string
  res_hashtags :: "string list"

text \<open>
  \<^verbatim>\<open>post.hashtags ? JSON.parse(post.hashtags) : []\<close>, with no \<^verbatim>\<open>try\<close> around
  it.
\<close>

definition parse_hashtags :: "string list json_text option \<Rightarrow> error + string list" where
  "parse_hashtags h =
     (case h of
        None \<Rightarrow> Inr []
      | Some EmptyText \<Rightarrow> Inr []
      | Some Unparseable \<Rightarrow> Inl SyntaxError
      | Some (Json tags) \<Rightarrow> Inr tags)"

text \<open>
  The records built by \<^verbatim>\<open>variations.map\<close>: \<open>nanoid i\<close> and \<open>clock i\<close> are
  the id and the time that the \<open>i\<close>-th call of \<^verbatim>\<open>nanoid()\<close> and of
  \<^verbatim>\<open>new Date()\<close> return.
\<close>

definition variationRecords ::
  "(nat \<Rightarrow> string) \<Rightarrow> (nat \<Rightarrow> date) \<Rightarrow> string \<Rightarrow> ToneOption option \<Rightarrow> GeneratedText list
   \<Rightarrow> TextVariation list" where
  "variationRecords nanoid clock feedback tone variations =
     map (\<lambda>(i, v).
            \<lparr>tv_id = nanoid i,
             tv_hook = gt_hook v,
             tv_caption = gt_caption v,
             tv_hashtags = gt_hashtags v,
             tv_feedback = feedback,
             tv_tone = tone,
             tv_createdAt = clock i,
             tv_accepted = False\<rparr>)
         (enumerate 0 variations)"

text \<open>
  \<open>generateTextVariationsWithAI\<close> is the generation collaborator (services/llm.ts):
  given the post's pillar, main idea, hook, caption and hashtags, the feedback and
  the tone, it raises or returns the variations. Its output schema is an array of any
  length.
\<close>

definition createTextVariations ::
  "(string \<times> string \<times> string \<times> string \<times> string list \<Rightarrow> string \<Rightarrow> ToneOption option
      \<Rightarrow> error + GeneratedText list)
   \<Rightarrow> (nat \<Rightarrow> string) \<Rightarrow> (nat \<Rightarrow> date) \<Rightarrow> date
   \<Rightarrow> string \<Rightarrow> string \<Rightarrow> ToneOption option \<Rightarrow> state
   \<Rightarrow> (error + TextVariationResult list) \<times> state" where
  "createTextVariations generateTextVariationsWithAI nanoid clock now postId feedback tone s =
     (case getPost s postId of
        None \<Rightarrow> (Inl NotFound, s)
      | Some post \<Rightarrow>
          (case parse_hashtags (hashtags post) of
             Inl e \<Rightarrow> (Inl e, s)
           | Inr tags \<Rightarrow>
               (case generateTextVariationsWithAI
                       (pillar post, mainIdea post, hook post, caption post, tags) feedback tone of
                  Inl e \<Rightarrow> (Inl e, s)
                | Inr variations \<Rightarrow>
                    (let r = parseHistory (history post);
                         records = variationRecords nanoid clock feedback tone variations
                     in case push_textVariations records r s of
                          Inl e \<Rightarrow> (Inl e, s)
                        | Inr (r1, s1) \<Rightarrow>
                            (let s2 = update_posts postId
                                        (\<lambda>p. p\<lparr>history := Some (stringify_history s1 r1),
                                               updatedAt := now\<rparr>) s1
                             in (Inr (map (\<lambda>v. \<lparr>res_id = tv_id v,
                                                 res_hook = tv_hook v,
                                                 res_caption = tv_caption v,
                                                 res_hashtags = tv_hashtags v\<rparr>) records),
                                 s2))))))"

subsection \<open>Regenerating the image\<close>

text \<open>What an image generator returns: \<^verbatim>\<open>{ url, key }\<close>.\<close>

record Uploaded =
  up_url :: string
  up_key :: string

text \<open>
  The image collaborators \<^verbatim>\<open>generateAndUploadImage\<close> (services/images.ts) and
  \<^verbatim>\<open>generateTextCard\<close> (services/text-card.ts, which uploads to the object
  store) take the prompt and the post id, and raise or return the upload.
\<close>

definition generateImage ::
  "(string \<Rightarrow> string \<Rightarrow> error + Uploaded) \<Rightarrow> (string \<Rightarrow> string \<Rightarrow> error + Uploaded)
   \<Rightarrow> ImageStyle \<Rightarrow> string \<Rightarrow> string \<Rightarrow> error + Uploaded" where
  "generateImage generateAndUploadImage generateTextCard style prompt pid =
     (if style = AiPhoto then generateAndUploadImage prompt pid
      else generateTextCard prompt pid)"

text \<open>\<^verbatim>\<open>if (post.imageUrl)\<close>: neither null nor the empty string.\<close>

definition truthy :: "string option \<Rightarrow> bool" where
  "truthy x = (case x of None \<Rightarrow> False | Some str \<Rightarrow> str \<noteq> [])"

text \<open>
  \<open>generateImprovedImagePrompt\<close> is the prompt collaborator: given the post's pillar,
  main idea, hook, caption, image style and image prompt, and the feedback, it raises
  or returns the improved prompt. \<open>now_iso\<close> is the time read for the new
  entry, \<open>now\<close> the time read for \<^verbatim>\<open>updatedAt\<close>.
\<close>

definition regenerateImage ::
  "(string \<times> string \<times> string \<times> string \<times> ImageStyle \<times> string \<Rightarrow> string \<Rightarrow> error + string)
   \<Rightarrow> (string \<Rightarrow> string \<Rightarrow> error + Uploaded) \<Rightarrow> (string \<Rightarrow> string \<Rightarrow> error + Uploaded)
   \<Rightarrow> (nat \<Rightarrow> string) \<Rightarrow> date \<Rightarrow> date
   \<Rightarrow> string \<Rightarrow> string \<Rightarrow> state
   \<Rightarrow> (error + Post option) \<times> state" where
  "regenerateImage generateImprovedImagePrompt generateAndUploadImage generateTextCard
                   nanoid now_iso now postId feedback s =
     (case getPost s postId of
        None \<Rightarrow> (Inl NotFound, s)
      | Some post \<Rightarrow>
          (case generateImprovedImagePrompt
                  (pillar post, mainIdea post, hook post, caption post, imageStyle post,
                   imagePrompt post) feedback of
             Inl e \<Rightarrow> (Inl e, s)
           | Inr newPrompt \<Rightarrow>
               (let r = parseHistory (history post)
                in case (if truthy (imageUrl post)
                         then push_imageVariations
                                \<lparr>iv_id = nanoid 0,
                                 iv_imagePrompt = imagePrompt post,
                                 iv_imageUrl = imageUrl post,
                                 iv_imageKey = imageKey post,
                                 iv_feedback = ''original'',
                                 iv_createdAt = createdAt post,
                                 iv_accepted = False\<rparr> r s
                         else Inr (r, s)) of
                     Inl e \<Rightarrow> (Inl e, s)
                   | Inr (r1, s1) \<Rightarrow>
                       (case generateImage generateAndUploadImage generateTextCard
                               (imageStyle post) newPrompt (post_id post) of
                          Inl e \<Rightarrow> (Inl e, s1)
                        | Inr uploaded \<Rightarrow>
                            (case push_imageVariations
                                    \<lparr>iv_id = nanoid (if truthy (imageUrl post) then 1 else 0),
                                     iv_imagePrompt = newPrompt,
                                     iv_imageUrl = Some (up_url uploaded),
                                     iv_imageKey = Some (up_key uploaded),
                                     iv_feedback = feedback,
                                     iv_createdAt = now_iso,
                                     iv_accepted = True\<rparr> r1 s1 of
                               Inl e \<Rightarrow> (Inl e, s1)
                             | Inr (r2, s2) \<Rightarrow>
                                 (let s3 = update_posts postId
                                             (\<lambda>p. p\<lparr>imagePrompt := newPrompt,
                                                    imageUrl := Some (up_url uploaded),
                                                    imageKey := Some (up_key uploaded),
                                                    history := Some (stringify_history s2 r2),
                                                    updatedAt := now\<rparr>) s2
                                  in (Inr (getPost s3 postId), s3)))))))"

subsection \<open>Generating a batch of posts\<close>

text \<open>What the content generator returns for one post (\<^verbatim>\<open>generatedPostSchema\<close>).\<close>

record GeneratedPost =
  gp_pillar :: string
  gp_mainIdea :: string
  gp_hook :: string
  gp_caption :: string
  gp_hashtags :: "string list"
  gp_imageStyle :: ImageStyle
  gp_imagePrompt :: string

text \<open>
  \<^verbatim>\<open>db.insert(posts).values(newPost).returning()\<close>: the primary key must be new.
\<close>

definition insert_post :: "Post \<Rightarrow> state \<Rightarrow> error + Post \<times> state" where
  "insert_post p s =
     (case db s (post_id p) of
        Some q \<Rightarrow> Inl (Error ''UNIQUE constraint failed: posts.id'')
      | None \<Rightarrow> Inr (p, s\<lparr>db := (db s)(post_id p \<mapsto> p)\<rparr>))"

text \<open>
  The \<^verbatim>\<open>try\<close> block of the loop body: a failure of the image collaborator is
  caught and logged, and the image fields stay null.
\<close>

definition tryGenerateImage ::
  "(string \<Rightarrow> string \<Rightarrow> error + Uploaded) \<Rightarrow> (string \<Rightarrow> string \<Rightarrow> error + Uploaded)
   \<Rightarrow> GeneratedPost \<Rightarrow> string \<Rightarrow> string option \<times> string option" where
  "tryGenerateImage generateAndUploadImage generateTextCard content pid =
     (case generateImage generateAndUploadImage generateTextCard
             (gp_imageStyle content) (gp_imagePrompt content) pid of
        Inl e \<Rightarrow> (None, None)
      | Inr uploaded \<Rightarrow> (Some (up_url uploaded), Some (up_key uploaded)))"

text \<open>The row built in the loop body; the columns it does not name are null.\<close>

definition newPost ::
  "string \<Rightarrow> string option \<Rightarrow> date \<Rightarrow> GeneratedPost \<Rightarrow> string
   \<Rightarrow> string option \<times> string option \<Rightarrow> Post" where
  "newPost batch creator now content pid img =
     \<lparr>post_id = pid,
      pillar = gp_pillar content,
      mainIdea = gp_mainIdea content,
      hook = gp_hook content,
      caption = gp_caption content,
      hashtags = Some (Json (gp_hashtags content)),
      imageStyle = gp_imageStyle content,
      imagePrompt = gp_imagePrompt content,
      imageUrl = fst img,
      imageKey = snd img,
      status = Draft,
      batchId = batch,
      history = None,
      createdBy = creator,
      approvedBy = None,
      rejectedBy = None,
      postedBy = None,
      createdAt = now,
      updatedAt = now\<rparr>"

text \<open>
  The loop \<^verbatim>\<open>for (const content of generatedContent)\<close>; \<open>i\<close> counts the calls
  of \<^verbatim>\<open>nanoid()\<close> made so far, \<open>created\<close> is \<^verbatim>\<open>createdPosts\<close>.
\<close>

fun process_contents ::
  "(string \<Rightarrow> string \<Rightarrow> error + Uploaded) \<Rightarrow> (string \<Rightarrow> string \<Rightarrow> error + Uploaded)
   \<Rightarrow> (nat \<Rightarrow> string) \<Rightarrow> string \<Rightarrow> string option \<Rightarrow> date
   \<Rightarrow> nat \<Rightarrow> GeneratedPost list \<Rightarrow> Post list \<Rightarrow> state
   \<Rightarrow> (error + Post list) \<times> state" where
  "process_contents generateAndUploadImage generateTextCard nanoid batch creator now
                    i [] created s = (Inr created, s)"
| "process_contents generateAndUploadImage generateTextCard nanoid batch creator now
                    i (content # rest) created s =
     (let postId = nanoid i;
          img = tryGenerateImage generateAndUploadImage generateTextCard content postId
      in case insert_post (newPost batch creator now content postId img) s of
           Inl e \<Rightarrow> (Inl e, s)
         | Inr (post, s1) \<Rightarrow>
             process_contents generateAndUploadImage generateTextCard nanoid batch creator now
                              (Suc i) rest (created @ [post]) s1)"

text \<open>
  \<open>generatePostsWithAI\<close> is the content collaborator: given
  \<^verbatim>\<open>includeTrendResearch\<close>, \<^verbatim>\<open>customPrompt\<close> and \<^verbatim>\<open>count\<close> it raises or
  returns the generated posts. \<open>creator\<close> is the id of the calling user
  (\<^verbatim>\<open>options?.createdBy?.id\<close>), if any.
  The result is \<^verbatim>\<open>{ batchId, posts }\<close>, a pair here.
\<close>

definition generatePostsBatch ::
  "(bool \<Rightarrow> string option \<Rightarrow> nat option \<Rightarrow> error + GeneratedPost list)
   \<Rightarrow> (string \<Rightarrow> string \<Rightarrow> error + Uploaded) \<Rightarrow> (string \<Rightarrow> string \<Rightarrow> error + Uploaded)
   \<Rightarrow> (nat \<Rightarrow> string) \<Rightarrow> date
   \<Rightarrow> string option \<Rightarrow> nat option \<Rightarrow> string option \<Rightarrow> state
   \<Rightarrow> (error + string \<times> Post list) \<times> state" where
  "generatePostsBatch generatePostsWithAI generateAndUploadImage generateTextCard nanoid now
                      customPrompt count creator s =
     (let batch = nanoid 0
      in case generatePostsWithAI (\<not> truthy customPrompt) customPrompt count of
           Inl e \<Rightarrow> (Inl e, s)
         | Inr generatedContent \<Rightarrow>
             (case process_contents generateAndUploadImage generateTextCard nanoid batch
                     creator now 1 generatedContent [] s of
                (Inl e, s1) \<Rightarrow> (Inl e, s1)
              | (Inr createdPosts, s1) \<Rightarrow> (Inr (batch, createdPosts), s1)))"

section \<open>Observations\<close>

text \<open>
  The text and image variations a post holds, read off its stored history: they are
  there when the column holds JSON for an object with that array, and not otherwise.
\<close>

definition post_textVariations :: "Post \<Rightarrow> TextVariation list option" where
  "post_textVariations p =
     (case history p of
        Some (Json (Object h)) \<Rightarrow> textVariations h
      | _ \<Rightarrow> None)"

definition post_imageVariations :: "Post \<Rightarrow> ImageVariation list option" where
  "post_imageVariations p =
     (case history p of
        Some (Json (Object h)) \<Rightarrow> imageVariations h
      | _ \<Rightarrow> None)"

text \<open>The \<^verbatim>\<open>map\<close> of \<^verbatim>\<open>acceptTextVariation\<close>, named for the proofs.\<close>

definition mark_accepted :: "string \<Rightarrow> TextVariation list \<Rightarrow> TextVariation list" where
  "mark_accepted vid tvs = map (\<lambda>v. v\<lparr>tv_accepted := (tv_id v = vid)\<rparr>) tvs"

section \<open>Example data\<close>

text \<open>The state of a freshly loaded module over an empty table.\<close>

definition no_posts :: state where
  "no_posts = \<lparr>db = Map.empty, emptyHistory = initial_emptyHistory\<rparr>"

text \<open>Collaborators: ids \<open>tag @ ''i''\<close>, \<open>tag @ ''ii''\<close>, ..., and fixed answers.\<close>

definition example_nanoid :: "string \<Rightarrow> nat \<Rightarrow> string" where
  "example_nanoid tag i = tag @ replicate (Suc i) (CHR ''i'')"

definition example_genPrompt ::
  "string \<times> string \<times> string \<times> string \<times> ImageStyle \<times> string \<Rightarrow> string \<Rightarrow> error + string" where
  "example_genPrompt original feedback = Inr (''improved: '' @ feedback)"

definition example_genPhoto :: "string \<Rightarrow> string \<Rightarrow> error + Uploaded" where
  "example_genPhoto prompt pid =
     Inr \<lparr>up_url = ''https://cdn/new-'' @ pid, up_key = ''posts/new-'' @ pid\<rparr>"

definition failing_genCard :: "string \<Rightarrow> string \<Rightarrow> error + Uploaded" where
  "failing_genCard prompt pid = Inl (Error ''upload failed'')"

definition example_generated :: "string \<Rightarrow> GeneratedText" where
  "example_generated h = \<lparr>gt_hook = h, gt_caption = ''c'' @ h, gt_hashtags = [''tag'', h]\<rparr>"

definition generate_three ::
  "string \<times> string \<times> string \<times> string \<times> string list \<Rightarrow> string \<Rightarrow> ToneOption option
   \<Rightarrow> error + GeneratedText list" where
  "generate_three original feedback tone =
     Inr [example_generated ''H1'', example_generated ''H2'', example_generated ''H3'']"

definition generate_two ::
  "string \<times> string \<times> string \<times> string \<times> string list \<Rightarrow> string \<Rightarrow> ToneOption option
   \<Rightarrow> error + GeneratedText list" where
  "generate_two original feedback tone =
     Inr [example_generated ''H1'', example_generated ''H2'']"

definition example_content :: GeneratedPost where
  "example_content =
     \<lparr>gp_pillar = ''meal planning'', gp_mainIdea = ''plan ahead'', gp_hook = ''A'',
      gp_caption = ''a'', gp_hashtags = [''parenting''], gp_imageStyle = AiPhoto,
      gp_imagePrompt = ''a kitchen''\<rparr>"

definition example_contents :: "GeneratedPost list" where
  "example_contents =
     [example_content, example_content\<lparr>gp_hook := ''B'', gp_imageStyle := TextCard\<rparr>]"

definition generate_two_posts :: "bool \<Rightarrow> string option \<Rightarrow> nat option \<Rightarrow> error + GeneratedPost list" where
  "generate_two_posts includeTrendResearch customPrompt count = Inr example_contents"

text \<open>A post as a batch makes it, with an image and no history.\<close>

definition example_post :: "string \<Rightarrow> Post" where
  "example_post pid =
     newPost ''batch'' None 100 example_content pid
       (Some (''https://cdn/'' @ pid), Some (''posts/'' @ pid))"

definition example_variation :: "string \<Rightarrow> string \<Rightarrow> TextVariation" where
  "example_variation vid h =
     \<lparr>tv_id = vid, tv_hook = h, tv_caption = ''c'' @ h, tv_hashtags = [''tag'', h],
      tv_feedback = ''shorter'', tv_tone = None, tv_createdAt = 200, tv_accepted = False\<rparr>"

definition three_variations :: "TextVariation list" where
  "three_variations =
     [example_variation ''v1'' ''H1'', example_variation ''v2'' ''H2'', example_variation ''v3'' ''H3'']"

text \<open>One post, already posted, whose stored history holds the given text variations.\<close>

definition posted_with_history :: "TextVariation list \<Rightarrow> state" where
  "posted_with_history tvs =
     \<lparr>db = [''A'' \<mapsto> (example_post ''A'')
                \<lparr>status := Posted,
                 history := Some (Json (Object \<lparr>textVariations = Some tvs,
                                               imageVariations = Some []\<rparr>))\<rparr>],
      emptyHistory = initial_emptyHistory\<rparr>"

text \<open>
  Two posts just generated, neither with a history yet, in a freshly loaded module;
  and the state after text variations have been generated for the first of them.
\<close>

definition two_fresh_posts :: state where
  "two_fresh_posts =
     \<lparr>db = [''A'' \<mapsto> example_post ''A'', ''B'' \<mapsto> example_post ''B''],
      emptyHistory = initial_emptyHistory\<rparr>"

definition after_variations_for_A :: state where
  "after_variations_for_A =
     snd (createTextVariations generate_three (example_nanoid ''a'') (\<lambda>i. 200) 200
            ''A'' ''shorter'' None two_fresh_posts)"

text \<open>The state after the image of the first of the two posts was regenerated.\<close>

definition after_image_for_A :: state where
  "after_image_for_A =
     snd (regenerateImage example_genPrompt example_genPhoto failing_genCard
            (example_nanoid ''n'') 300 301 ''A'' ''warmer'' two_fresh_posts)"

text \<open>One post whose history column holds the JSON text \<^verbatim>\<open>null\<close>.\<close>

definition null_history_post :: state where
  "null_history_post =
     \<lparr>db = [''A'' \<mapsto> (example_post ''A'')\<lparr>history := Some (Json NonObject)\<rparr>],
      emptyHistory = initial_emptyHistory\<rparr>"

section \<open>Variation ids and reachable states\<close>

text \<open>
  The ids of text variations come from \<^verbatim>\<open>nanoid()\<close> in
  \<^verbatim>\<open>createTextVariations\<close> and from nowhere else. \<open>ids_ok\<close> says that the ids
  are pairwise distinct within the text-variation log of the \<^verbatim>\<open>emptyHistory\<close>
  object and within the stored log of every post; \<open>used_ids\<close> are the ids that
  occur in any of these logs.
\<close>

definition distinct_ids :: "TextVariation list option \<Rightarrow> bool" where
  "distinct_ids l = (case l of None \<Rightarrow> True | Some tvs \<Rightarrow> distinct (map tv_id tvs))"

definition ids_ok :: "state \<Rightarrow> bool" where
  "ids_ok s =
     (distinct_ids (textVariations (emptyHistory s)) \<and>
      (\<forall>pid p. db s pid = Some p \<longrightarrow> distinct_ids (post_textVariations p)))"

definition log_ids :: "TextVariation list option \<Rightarrow> string set" where
  "log_ids l = (case l of None \<Rightarrow> {} | Some tvs \<Rightarrow> tv_id ` set tvs)"

definition used_ids :: "state \<Rightarrow> string set" where
  "used_ids s =
     log_ids (textVariations (emptyHistory s)) \<union>
     (\<Union>p \<in> ran (db s). log_ids (post_textVariations p))"

text \<open>
  The states the module reaches: it is loaded over an empty table, it may be loaded
  again over the table as it is, and it runs its operations, with any arguments and any
  answers of the collaborators, where \<^verbatim>\<open>nanoid()\<close> returns ids that differ from
  one another and from every id in use.
\<close>

inductive reachable :: "state \<Rightarrow> bool" where
  loaded: "reachable no_posts"
| reloaded: "reachable s \<Longrightarrow> reachable (s\<lparr>emptyHistory := initial_emptyHistory\<rparr>)"
| generated: "reachable s \<Longrightarrow>
     reachable (snd (generatePostsBatch genPosts gp gc nanoid now customPrompt count creator s))"
| approved: "reachable s \<Longrightarrow> reachable (snd (approvePost pid user now s))"
| rejected: "reachable s \<Longrightarrow> reachable (snd (rejectPost pid user now s))"
| posted: "reachable s \<Longrightarrow> reachable (snd (markPostAsPosted pid user now s))"
| deleted: "reachable s \<Longrightarrow> reachable (snd (deletePost deleteImageFromR2 pid s))"
| varied: "reachable s \<Longrightarrow> inj nanoid \<Longrightarrow> \<forall>i. nanoid i \<notin> used_ids s \<Longrightarrow>
     reachable (snd (createTextVariations gen nanoid clock now postId feedback tone s))"
| accepted: "reachable s \<Longrightarrow> reachable (snd (acceptTextVariation postId vid now s))"
| regenerated: "reachable s \<Longrightarrow>
     reachable (snd (regenerateImage genPrompt gp gc nanoid now_iso now postId feedback s))"

section \<open>Auxiliary facts\<close>

lemmas accept_defs =
  acceptTextVariation_def getPost_def parseHistory_def read_textVariations_def deref_def
  write_textVariations_def assign_def update_posts_def stringify_history_def Let_def

lemmas create_defs =
  createTextVariations_def getPost_def parseHistory_def read_textVariations_def deref_def
  write_textVariations_def push_textVariations_def assign_def update_posts_def
  stringify_history_def parse_hashtags_def variationRecords_def Let_def

lemmas regenerate_defs =
  regenerateImage_def getPost_def parseHistory_def read_imageVariations_def deref_def
  write_imageVariations_def push_imageVariations_def assign_def update_posts_def
  stringify_history_def generateImage_def truthy_def Let_def

lemmas batch_defs =
  generatePostsBatch_def insert_post_def newPost_def tryGenerateImage_def generateImage_def
  truthy_def Let_def One_nat_def

lemmas collaborator_defs =
  example_nanoid_def example_genPrompt_def example_genPhoto_def failing_genCard_def
  example_generated_def generate_three_def generate_two_def

lemmas example_defs =
  posted_with_history_def example_post_def example_variation_def example_content_def
  newPost_def initial_emptyHistory_def three_variations_def

subsection \<open>The table and the history object\<close>

lemma db_update_posts:
  "db (update_posts pid f s) = (case db s pid of None \<Rightarrow> db s | Some p \<Rightarrow> (db s)(pid \<mapsto> f p))"
  by (simp add: update_posts_def split: option.splits)

lemma read_textVariations_Inr:
  "read_textVariations s r = Inr tvs \<Longrightarrow> \<exists>h. deref s r = Object h \<and> textVariations h = Some tvs"
  by (auto simp: read_textVariations_def split: history_value.splits option.splits)

lemma read_imageVariations_Inr:
  "read_imageVariations s r = Inr ivs \<Longrightarrow> \<exists>h. deref s r = Object h \<and> imageVariations h = Some ivs"
  by (auto simp: read_imageVariations_def split: history_value.splits option.splits)

lemma read_stored_textVariations:
  "post_textVariations P = Some l \<Longrightarrow> read_textVariations s (parseHistory (history P)) = Inr l"
  by (auto simp: post_textVariations_def parseHistory_def read_textVariations_def deref_def
      split: option.splits json_text.splits history_value.splits)

lemma read_stored_imageVariations:
  "post_imageVariations P = Some l \<Longrightarrow> read_imageVariations s (parseHistory (history P)) = Inr l"
  by (auto simp: post_imageVariations_def parseHistory_def read_imageVariations_def deref_def
      split: option.splits json_text.splits history_value.splits)

lemma write_textVariations_result:
  assumes "deref s r = Object h" and "write_textVariations tvs r s = (r1, s1)"
  shows "deref s1 r1 = Object (h\<lparr>textVariations := Some tvs\<rparr>) \<and> db s1 = db s"
  using assms
  by (cases r) (auto simp: write_textVariations_def assign_def deref_def)

lemma write_imageVariations_result:
  assumes "deref s r = Object h" and "write_imageVariations ivs r s = (r1, s1)"
  shows "deref s1 r1 = Object (h\<lparr>imageVariations := Some ivs\<rparr>) \<and> db s1 = db s"
  using assms
  by (cases r) (auto simp: write_imageVariations_def assign_def deref_def)

lemma push_textVariations_Inr:
  assumes "push_textVariations records r s = Inr (r1, s1)"
  shows "\<exists>h tvs. deref s r = Object h \<and> textVariations h = Some tvs \<and>
                 deref s1 r1 = Object (h\<lparr>textVariations := Some (tvs @ records)\<rparr>) \<and> db s1 = db s"
proof -
  from assms obtain tvs where tvs: "read_textVariations s r = Inr tvs"
    and w: "write_textVariations (tvs @ records) r s = (r1, s1)"
    by (auto simp: push_textVariations_def split: sum.splits)
  from read_textVariations_Inr [OF tvs] obtain h where
    h: "deref s r = Object h" "textVariations h = Some tvs" by blast
  from write_textVariations_result [OF h(1) w] h show ?thesis by blast
qed

lemma push_imageVariations_Inr:
  assumes "push_imageVariations entry r s = Inr (r1, s1)"
  shows "\<exists>h ivs. deref s r = Object h \<and> imageVariations h = Some ivs \<and>
                 deref s1 r1 = Object (h\<lparr>imageVariations := Some (ivs @ [entry])\<rparr>) \<and> db s1 = db s"
proof -
  from assms obtain ivs where ivs: "read_imageVariations s r = Inr ivs"
    and w: "write_imageVariations (ivs @ [entry]) r s = (r1, s1)"
    by (auto simp: push_imageVariations_def split: sum.splits)
  from read_imageVariations_Inr [OF ivs] obtain h where
    h: "deref s r = Object h" "imageVariations h = Some ivs" by blast
  from write_imageVariations_result [OF h(1) w] h show ?thesis by blast
qed

subsection \<open>Lists\<close>

lemma find_Some_set: "find Q xs = Some x \<Longrightarrow> x \<in> set xs \<and> Q x"
  by (induction xs) (auto split: if_splits)

lemma find_distinct:
  "distinct (map f xs) \<Longrightarrow> x \<in> set xs \<Longrightarrow> find (\<lambda>v. f v = f x) xs = Some x"
  by (induction xs) force+

lemma filter_unique:
  "distinct (map f xs) \<Longrightarrow> x \<in> set xs \<Longrightarrow> length (filter (\<lambda>v. f v = f x) xs) = 1"
proof (induction xs)
  case Nil
  then show ?case by simp
next
  case (Cons a xs)
  show ?case
  proof (cases "f a = f x")
    case True
    from Cons.prems(1) have "f a \<notin> f ` set xs" by simp
    with True have "\<forall>v\<in>set xs. f v \<noteq> f x" by (metis imageI)
    then have "filter (\<lambda>v. f v = f x) xs = []" by (simp add: filter_empty_conv)
    with True show ?thesis by simp
  next
    case False
    with Cons show ?thesis by auto
  qed
qed

lemma map_enumerate_snd: "map (\<lambda>x. f (snd x)) (enumerate n xs) = map f xs"
  by (induction xs arbitrary: n) auto

lemma find_mark_accepted:
  "find (\<lambda>v. tv_id v = vid) tvs = Some V \<Longrightarrow>
   find (\<lambda>v. tv_id v = vid) (mark_accepted vid tvs) = Some (V\<lparr>tv_accepted := True\<rparr>)"
  by (induction tvs) (auto simp: mark_accepted_def split: if_splits)

lemma mark_accepted_idem: "mark_accepted vid (mark_accepted vid tvs) = mark_accepted vid tvs"
  by (simp add: mark_accepted_def)

subsection \<open>What \<^verbatim>\<open>acceptTextVariation\<close> does\<close>

lemma acceptTextVariation_failure:
  "fst (acceptTextVariation postId vid now s) = Inl e \<Longrightarrow>
   snd (acceptTextVariation postId vid now s) = s"
  by (auto simp: acceptTextVariation_def Let_def split: option.splits sum.splits prod.splits)

lemma acceptTextVariation_run:
  assumes "acceptTextVariation postId vid now s = (Inr res, s')"
  shows "\<exists>P h tvs V.
           db s postId = Some P \<and>
           deref s (parseHistory (history P)) = Object h \<and>
           textVariations h = Some tvs \<and>
           find (\<lambda>v. tv_id v = vid) tvs = Some V \<and>
           res = Some (P\<lparr>hook := tv_hook V, caption := tv_caption V,
                         hashtags := Some (Json (tv_hashtags V)),
                         history := Some (Json (Object (h\<lparr>textVariations := Some (mark_accepted vid tvs)\<rparr>))),
                         updatedAt := now\<rparr>) \<and>
           db s' = (db s)(postId \<mapsto> the res)"
proof -
  from assms obtain P where P: "db s postId = Some P"
    by (auto simp: acceptTextVariation_def getPost_def split: option.splits)
  let ?r = "parseHistory (history P)"
  from assms P obtain tvs where tvs: "read_textVariations s ?r = Inr tvs"
    by (auto simp: acceptTextVariation_def getPost_def Let_def split: sum.splits)
  then obtain h where h: "deref s ?r = Object h" "textVariations h = Some tvs"
    using read_textVariations_Inr by blast
  from assms P tvs obtain V where V: "find (\<lambda>v. tv_id v = vid) tvs = Some V"
    by (auto simp: acceptTextVariation_def getPost_def Let_def split: option.splits)
  obtain r1 s1 where w: "write_textVariations (mark_accepted vid tvs) ?r s = (r1, s1)"
    by (cases "write_textVariations (mark_accepted vid tvs) ?r s") auto
  from write_textVariations_result [OF h(1) w]
  have d: "deref s1 r1 = Object (h\<lparr>textVariations := Some (mark_accepted vid tvs)\<rparr>)" "db s1 = db s"
    by auto
  from assms P tvs V w d
  show ?thesis using h
    by (auto simp: acceptTextVariation_def getPost_def Let_def mark_accepted_def [symmetric]
          stringify_history_def db_update_posts)
qed

lemma acceptTextVariation_success:
  assumes "fst (acceptTextVariation postId vid now s) = Inr res"
  shows "\<exists>P h tvs V.
           db s postId = Some P \<and>
           deref s (parseHistory (history P)) = Object h \<and>
           textVariations h = Some tvs \<and>
           find (\<lambda>v. tv_id v = vid) tvs = Some V \<and>
           res = Some (P\<lparr>hook := tv_hook V, caption := tv_caption V,
                         hashtags := Some (Json (tv_hashtags V)),
                         history := Some (Json (Object (h\<lparr>textVariations := Some (mark_accepted vid tvs)\<rparr>))),
                         updatedAt := now\<rparr>) \<and>
           db (snd (acceptTextVariation postId vid now s)) = (db s)(postId \<mapsto> the res)"
  using acceptTextVariation_run [of postId vid now s res "snd (acceptTextVariation postId vid now s)"]
    assms
  by (simp add: prod_eq_iff)

lemma acceptTextVariation_stored:
  assumes "db s postId = Some P"
      and "history P = Some (Json (Object h))"
      and "textVariations h = Some tvs"
      and "find (\<lambda>v. tv_id v = vid) tvs = Some V"
  shows "acceptTextVariation postId vid now s =
           (Inr (Some (P\<lparr>hook := tv_hook V, caption := tv_caption V,
                          hashtags := Some (Json (tv_hashtags V)),
                          history := Some (Json (Object (h\<lparr>textVariations := Some (mark_accepted vid tvs)\<rparr>))),
                          updatedAt := now\<rparr>)),
            s\<lparr>db := (db s)(postId \<mapsto>
                  P\<lparr>hook := tv_hook V, caption := tv_caption V,
                    hashtags := Some (Json (tv_hashtags V)),
                    history := Some (Json (Object (h\<lparr>textVariations := Some (mark_accepted vid tvs)\<rparr>))),
                    updatedAt := now\<rparr>)\<rparr>)"
  using assms by (simp add: accept_defs mark_accepted_def)

lemma acceptTextVariation_NotFound:
  "getPost s postId = None \<Longrightarrow> acceptTextVariation postId vid now s = (Inl NotFound, s)"
  by (simp add: acceptTextVariation_def)

lemma acceptTextVariation_VariationNotFound:
  assumes "getPost s postId = Some P"
      and "post_textVariations P = Some tvs"
      and "vid \<notin> tv_id ` set tvs"
  shows "acceptTextVariation postId vid now s = (Inl VariationNotFound, s)"
proof -
  from assms(3) have "find (\<lambda>v. tv_id v = vid) tvs = None"
    by (auto simp: find_None_iff)
  with assms(1) read_stored_textVariations [OF assms(2), of s] show ?thesis
    by (simp add: acceptTextVariation_def)
qed

subsection \<open>What \<^verbatim>\<open>createTextVariations\<close> does\<close>

lemma length_variationRecords:
  "length (variationRecords nanoid clock feedback tone variations) = length variations"
  by (simp add: variationRecords_def)

lemma variationRecords_fields:
  "map tv_hook (variationRecords nanoid clock feedback tone variations) = map gt_hook variations"
  "map tv_caption (variationRecords nanoid clock feedback tone variations) = map gt_caption variations"
  "map tv_hashtags (variationRecords nanoid clock feedback tone variations) = map gt_hashtags variations"
  "map tv_feedback (variationRecords nanoid clock feedback tone variations)
     = replicate (length variations) feedback"
  "map tv_accepted (variationRecords nanoid clock feedback tone variations)
     = replicate (length variations) False"
  by (simp_all add: variationRecords_def case_prod_unfold comp_def map_enumerate_snd
        map_replicate_const)

lemma createTextVariations_success:
  assumes "fst (createTextVariations gen nanoid clock now postId feedback tone s) = Inr res"
  shows "\<exists>P tags variations h tvs.
           db s postId = Some P \<and>
           parse_hashtags (hashtags P) = Inr tags \<and>
           gen (pillar P, mainIdea P, hook P, caption P, tags) feedback tone = Inr variations \<and>
           deref s (parseHistory (history P)) = Object h \<and>
           textVariations h = Some tvs \<and>
           db (snd (createTextVariations gen nanoid clock now postId feedback tone s)) =
             (db s)(postId \<mapsto>
                P\<lparr>history := Some (Json (Object (h\<lparr>textVariations :=
                       Some (tvs @ variationRecords nanoid clock feedback tone variations)\<rparr>))),
                  updatedAt := now\<rparr>)"
proof -
  let ?run = "createTextVariations gen nanoid clock now postId feedback tone s"
  from assms obtain P where P: "db s postId = Some P"
    by (auto simp: createTextVariations_def getPost_def split: option.splits)
  from assms P obtain tags where tags: "parse_hashtags (hashtags P) = Inr tags"
    by (auto simp: createTextVariations_def getPost_def split: sum.splits)
  from assms P tags obtain variations where
    gen: "gen (pillar P, mainIdea P, hook P, caption P, tags) feedback tone = Inr variations"
    by (auto simp: createTextVariations_def getPost_def split: sum.splits)
  let ?records = "variationRecords nanoid clock feedback tone variations"
  from assms P tags gen obtain r1 s1 where
    push: "push_textVariations ?records (parseHistory (history P)) s = Inr (r1, s1)"
    by (auto simp: createTextVariations_def getPost_def Let_def split: sum.splits)
  from push_textVariations_Inr [OF push] obtain h tvs where
    h: "deref s (parseHistory (history P)) = Object h" "textVariations h = Some tvs"
       "deref s1 r1 = Object (h\<lparr>textVariations := Some (tvs @ ?records)\<rparr>)" "db s1 = db s"
    by blast
  have "db (snd ?run) = (db s)(postId \<mapsto>
          P\<lparr>history := Some (Json (Object (h\<lparr>textVariations := Some (tvs @ ?records)\<rparr>))),
            updatedAt := now\<rparr>)"
    using P tags gen push h
    by (simp add: createTextVariations_def getPost_def Let_def stringify_history_def
          db_update_posts)
  with P tags gen h show ?thesis by blast
qed

subsection \<open>What \<^verbatim>\<open>regenerateImage\<close> does\<close>

lemma regenerateImage_success:
  assumes ok: "fst (regenerateImage genPrompt genPhoto genCard nanoid now_iso now postId feedback s)
                 = Inr res"
  shows "\<exists>P newPrompt uploaded h ivs.
           db s postId = Some P \<and>
           genPrompt (pillar P, mainIdea P, hook P, caption P, imageStyle P, imagePrompt P) feedback
             = Inr newPrompt \<and>
           generateImage genPhoto genCard (imageStyle P) newPrompt (post_id P) = Inr uploaded \<and>
           deref s (parseHistory (history P)) = Object h \<and>
           imageVariations h = Some ivs \<and>
           db (snd (regenerateImage genPrompt genPhoto genCard nanoid now_iso now postId feedback s)) =
             (db s)(postId \<mapsto>
                P\<lparr>imagePrompt := newPrompt,
                  imageUrl := Some (up_url uploaded),
                  imageKey := Some (up_key uploaded),
                  history := Some (Json (Object (h\<lparr>imageVariations :=
                      Some (ivs @
                            (if truthy (imageUrl P)
                             then [\<lparr>iv_id = nanoid 0,
                                    iv_imagePrompt = imagePrompt P,
                                    iv_imageUrl = imageUrl P,
                                    iv_imageKey = imageKey P,
                                    iv_feedback = ''original'',
                                    iv_createdAt = createdAt P,
                                    iv_accepted = False\<rparr>]
                             else []) @
                            [\<lparr>iv_id = nanoid (if truthy (imageUrl P) then 1 else 0),
                              iv_imagePrompt = newPrompt,
                              iv_imageUrl = Some (up_url uploaded),
                              iv_imageKey = Some (up_key uploaded),
                              iv_feedback = feedback,
                              iv_createdAt = now_iso,
                              iv_accepted = True\<rparr>])\<rparr>))),
                  updatedAt := now\<rparr>) \<and>
           res = db (snd (regenerateImage genPrompt genPhoto genCard nanoid now_iso now postId feedback s))
                   postId"
proof -
  let ?run = "regenerateImage genPrompt genPhoto genCard nanoid now_iso now postId feedback s"
  from ok obtain P where P: "db s postId = Some P"
    by (auto simp: regenerateImage_def getPost_def split: option.splits)
  from ok P obtain newPrompt where
    np: "genPrompt (pillar P, mainIdea P, hook P, caption P, imageStyle P, imagePrompt P) feedback
           = Inr newPrompt"
    by (auto simp: regenerateImage_def getPost_def split: sum.splits)
  let ?r = "parseHistory (history P)"
  let ?archived = "\<lparr>iv_id = nanoid 0, iv_imagePrompt = imagePrompt P, iv_imageUrl = imageUrl P,
                    iv_imageKey = imageKey P, iv_feedback = ''original'',
                    iv_createdAt = createdAt P, iv_accepted = False\<rparr>"
  let ?first = "if truthy (imageUrl P) then push_imageVariations ?archived ?r s else Inr (?r, s)"
  from ok P np obtain r1 s1 where first: "?first = Inr (r1, s1)"
    by (auto simp: regenerateImage_def getPost_def Let_def split: sum.splits)
  from ok P np first obtain uploaded where
    up: "generateImage genPhoto genCard (imageStyle P) newPrompt (post_id P) = Inr uploaded"
    by (auto simp: regenerateImage_def getPost_def Let_def split: sum.splits)
  let ?new = "\<lparr>iv_id = nanoid (if truthy (imageUrl P) then 1 else 0), iv_imagePrompt = newPrompt,
               iv_imageUrl = Some (up_url uploaded), iv_imageKey = Some (up_key uploaded),
               iv_feedback = feedback, iv_createdAt = now_iso, iv_accepted = True\<rparr>"
  from ok P np first up obtain r2 s2 where
    second: "push_imageVariations ?new r1 s1 = Inr (r2, s2)"
    by (auto simp: regenerateImage_def getPost_def Let_def split: sum.splits)
  from push_imageVariations_Inr [OF second] obtain h1 ivs1 where
    h1: "deref s1 r1 = Object h1" "imageVariations h1 = Some ivs1"
        "deref s2 r2 = Object (h1\<lparr>imageVariations := Some (ivs1 @ [?new])\<rparr>)" "db s2 = db s1"
    by blast
  have "\<exists>h ivs. deref s ?r = Object h \<and> imageVariations h = Some ivs \<and> db s1 = db s \<and>
                 h1\<lparr>imageVariations := Some (ivs1 @ [?new])\<rparr> =
                 h\<lparr>imageVariations := Some (ivs @ (if truthy (imageUrl P) then [?archived] else [])
                                              @ [?new])\<rparr>"
  proof (cases "truthy (imageUrl P)")
    case True
    with first have "push_imageVariations ?archived ?r s = Inr (r1, s1)" by simp
    from push_imageVariations_Inr [OF this] obtain h ivs where
      h: "deref s ?r = Object h" "imageVariations h = Some ivs"
         "deref s1 r1 = Object (h\<lparr>imageVariations := Some (ivs @ [?archived])\<rparr>)" "db s1 = db s"
      by blast
    with h1 True show ?thesis by auto
  next
    case False
    with first have "r1 = ?r" "s1 = s" by simp_all
    with h1 False show ?thesis by auto
  qed
  then obtain h ivs where
    h: "deref s ?r = Object h" "imageVariations h = Some ivs" "db s1 = db s"
       "h1\<lparr>imageVariations := Some (ivs1 @ [?new])\<rparr> =
        h\<lparr>imageVariations := Some (ivs @ (if truthy (imageUrl P) then [?archived] else [])
                                     @ [?new])\<rparr>"
    by blast
  have run: "?run = (Inr (getPost (update_posts postId
                        (\<lambda>p. p\<lparr>imagePrompt := newPrompt,
                               imageUrl := Some (up_url uploaded),
                               imageKey := Some (up_key uploaded),
                               history := Some (stringify_history s2 r2),
                               updatedAt := now\<rparr>) s2) postId),
                     update_posts postId
                        (\<lambda>p. p\<lparr>imagePrompt := newPrompt,
                               imageUrl := Some (up_url uploaded),
                               imageKey := Some (up_key uploaded),
                               history := Some (stringify_history s2 r2),
                               updatedAt := now\<rparr>) s2)"
    using P np first up second
    by (simp add: regenerateImage_def getPost_def Let_def)
  have db2: "db s2 postId = Some P" using P h1(4) h(3) by simp
  have dbrun: "db (snd ?run) = (db s)(postId \<mapsto>
                P\<lparr>imagePrompt := newPrompt,
                  imageUrl := Some (up_url uploaded),
                  imageKey := Some (up_key uploaded),
                  history := Some (Json (Object (h\<lparr>imageVariations :=
                      Some (ivs @ (if truthy (imageUrl P) then [?archived] else []) @ [?new])\<rparr>))),
                  updatedAt := now\<rparr>)"
    using db2 h1(3,4) h(3,4)
    by (simp add: run db_update_posts stringify_history_def)
  have res: "res = db (snd ?run) postId"
    using ok by (simp add: run getPost_def)
  show ?thesis
    apply (rule exI [of _ P])
    apply (rule exI [of _ newPrompt])
    apply (rule exI [of _ uploaded])
    apply (rule exI [of _ h])
    apply (rule exI [of _ ivs])
    using P np up h(1,2) dbrun res
    apply simp
    done
qed

subsection \<open>What the loop of \<^verbatim>\<open>generatePostsBatch\<close> does\<close>

lemma insert_post_Inr:
  "insert_post p s = Inr (q, s1) \<Longrightarrow>
   q = p \<and> db s (post_id p) = None \<and> s1 = s\<lparr>db := (db s)(post_id p \<mapsto> p)\<rparr>"
  by (auto simp: insert_post_def split: option.splits)

lemma post_id_newPost [simp]: "post_id (newPost batch creator now content pid img) = pid"
  by (simp add: newPost_def)

text \<open>Rows that are in the table stay as they are: an insert only adds a new key.\<close>

lemma process_contents_preserves:
  "fst (process_contents gp gc nanoid batch creator now i contents created s) = Inr posts \<Longrightarrow>
   db s k = Some q \<Longrightarrow>
   db (snd (process_contents gp gc nanoid batch creator now i contents created s)) k = Some q"
proof (induction contents arbitrary: i created s)
  case Nil
  then show ?case by simp
next
  case (Cons c cs)
  let ?p = "newPost batch creator now c (nanoid i) (tryGenerateImage gp gc c (nanoid i))"
  from Cons.prems(1) obtain q1 s1 where ins: "insert_post ?p s = Inr (q1, s1)"
    by (auto simp: Let_def split: sum.splits)
  from insert_post_Inr [OF ins] have s1: "q1 = ?p" "db s (nanoid i) = None"
    "s1 = s\<lparr>db := (db s)(nanoid i \<mapsto> ?p)\<rparr>" by simp_all
  from s1(2) Cons.prems(2) have "k \<noteq> nanoid i" by auto
  then have k1: "db s1 k = Some q" using Cons.prems(2) s1(3) by simp
  from Cons.prems(1) ins
  have run: "process_contents gp gc nanoid batch creator now i (c # cs) created s =
             process_contents gp gc nanoid batch creator now (Suc i) cs (created @ [q1]) s1"
    by (simp add: Let_def)
  from Cons.IH [of "Suc i" "created @ [q1]" s1] Cons.prems(1) k1 show ?case
    by (simp only: run)
qed

lemma process_contents_Inr:
  "fst (process_contents gp gc nanoid batch creator now i contents created s) = Inr posts \<Longrightarrow>
   posts = created @
             map (\<lambda>(k, c). newPost batch creator now c (nanoid k) (tryGenerateImage gp gc c (nanoid k)))
                 (enumerate i contents) \<and>
   (\<forall>j<length contents.
      db (snd (process_contents gp gc nanoid batch creator now i contents created s)) (nanoid (i + j))
        = Some (newPost batch creator now (contents ! j) (nanoid (i + j))
                  (tryGenerateImage gp gc (contents ! j) (nanoid (i + j)))))"
proof (induction contents arbitrary: i created s posts)
  case Nil
  then show ?case by simp
next
  case (Cons c cs)
  let ?p = "newPost batch creator now c (nanoid i) (tryGenerateImage gp gc c (nanoid i))"
  let ?run = "process_contents gp gc nanoid batch creator now i (c # cs) created s"
  from Cons.prems obtain q1 s1 where ins: "insert_post ?p s = Inr (q1, s1)"
    by (auto simp: Let_def split: sum.splits)
  from insert_post_Inr [OF ins] have s1: "q1 = ?p"
    "s1 = s\<lparr>db := (db s)(nanoid i \<mapsto> ?p)\<rparr>" by simp_all
  from Cons.prems ins
  have run: "?run = process_contents gp gc nanoid batch creator now (Suc i) cs (created @ [?p]) s1"
    by (simp add: Let_def s1(1))
  with Cons.prems
  have ok: "fst (process_contents gp gc nanoid batch creator now (Suc i) cs (created @ [?p]) s1)
              = Inr posts" by simp
  from Cons.IH [OF ok]
  have posts: "posts = (created @ [?p]) @
                 map (\<lambda>(k, c). newPost batch creator now c (nanoid k)
                                 (tryGenerateImage gp gc c (nanoid k)))
                     (enumerate (Suc i) cs)"
    and later: "\<forall>j<length cs.
      db (snd (process_contents gp gc nanoid batch creator now (Suc i) cs (created @ [?p]) s1))
         (nanoid (Suc i + j))
        = Some (newPost batch creator now (cs ! j) (nanoid (Suc i + j))
                  (tryGenerateImage gp gc (cs ! j) (nanoid (Suc i + j))))"
    by simp_all
  have head: "db (snd ?run) (nanoid i) = Some ?p"
  proof -
    have "db s1 (nanoid i) = Some ?p" by (simp add: s1(2))
    from process_contents_preserves [OF ok this] show ?thesis by (simp only: run)
  qed
  have rows: "\<forall>j<length (c # cs).
      db (snd ?run) (nanoid (i + j))
        = Some (newPost batch creator now ((c # cs) ! j) (nanoid (i + j))
                  (tryGenerateImage gp gc ((c # cs) ! j) (nanoid (i + j))))"
  proof (intro allI impI)
    fix j assume j: "j < length (c # cs)"
    show "db (snd ?run) (nanoid (i + j))
        = Some (newPost batch creator now ((c # cs) ! j) (nanoid (i + j))
                  (tryGenerateImage gp gc ((c # cs) ! j) (nanoid (i + j))))"
    proof (cases j)
      case 0
      with head show ?thesis by simp
    next
      case (Suc j')
      with j later show ?thesis unfolding run by simp
    qed
  qed
  from posts rows show ?case by simp
qed

text \<open>
  Whether the loop stops early depends on the ids and on the keys of the table, not on
  what the image collaborators answer.
\<close>

lemma process_contents_abort_independent:
  "dom (db s) = dom (db t) \<Longrightarrow>
   isl (fst (process_contents gp gc nanoid batch creator now i contents created s)) =
   isl (fst (process_contents gp' gc' nanoid batch creator now i contents created' t))"
proof (induction contents arbitrary: i created created' s t)
  case Nil
  then show ?case by simp
next
  case (Cons c cs)
  let ?p = "newPost batch creator now c (nanoid i) (tryGenerateImage gp gc c (nanoid i))"
  let ?p' = "newPost batch creator now c (nanoid i) (tryGenerateImage gp' gc' c (nanoid i))"
  show ?case
  proof (cases "db s (nanoid i)")
    case (Some q)
    with Cons.prems obtain q' where "db t (nanoid i) = Some q'" by (metis domD domI)
    with Some show ?thesis by (simp add: insert_post_def Let_def)
  next
    case None
    with Cons.prems have None': "db t (nanoid i) = None" by (metis domIff)
    have "dom (db (s\<lparr>db := (db s)(nanoid i \<mapsto> ?p)\<rparr>)) = dom (db (t\<lparr>db := (db t)(nanoid i \<mapsto> ?p')\<rparr>))"
      using Cons.prems by simp
    from Cons.IH [OF this] None None' show ?thesis
      by (simp add: insert_post_def Let_def)
  qed
qed

subsection \<open>The state after text variations were generated for the first of two fresh posts\<close>

lemma after_A_db:
  "db after_variations_for_A ''B'' = Some (example_post ''B'')"
  by (simp add: after_variations_for_A_def two_fresh_posts_def create_defs collaborator_defs
        example_defs)

lemma after_A_emptyHistory:
  "emptyHistory after_variations_for_A =
     \<lparr>textVariations = Some (variationRecords (example_nanoid ''a'') (\<lambda>i. 200) ''shorter'' None
         [example_generated ''H1'', example_generated ''H2'', example_generated ''H3'']),
      imageVariations = Some []\<rparr>"
  by (simp add: after_variations_for_A_def two_fresh_posts_def create_defs collaborator_defs
        example_defs)

subsection \<open>Distinct ids are kept by every operation\<close>

lemma ids_ok_no_posts: "ids_ok no_posts"
  by (simp add: ids_ok_def no_posts_def distinct_ids_def initial_emptyHistory_def)

lemma distinct_ids_mark [simp]:
  "distinct (map tv_id (mark_accepted vid tvs)) = distinct (map tv_id tvs)"
  by (simp add: mark_accepted_def comp_def)

lemma ids_ok_accept:
  assumes "ids_ok s"
  shows "ids_ok (snd (acceptTextVariation postId vid now s))"
  using assms
  by (auto simp: accept_defs ids_ok_def distinct_ids_def post_textVariations_def comp_def
      split: option.splits sum.splits json_text.splits history_value.splits if_splits)


lemma ids_ok_shared:
  assumes "ids_ok s" and "textVariations (emptyHistory s) = Some tvs"
  shows "distinct (map tv_id tvs)"
  using assms by (simp add: ids_ok_def distinct_ids_def)

lemma ids_ok_stored:
  assumes "ids_ok s" and "db s pid = Some p" and "post_textVariations p = Some tvs"
  shows "distinct (map tv_id tvs)"
proof -
  from assms(1,2) have "distinct_ids (post_textVariations p)"
    unfolding ids_ok_def by blast
  with assms(3) show ?thesis by (simp add: distinct_ids_def)
qed

lemma map_enumerate_fst: "map (\<lambda>x. f (fst x)) (enumerate n xs) = map f [n..<n + length xs]"
proof -
  have "map f [n..<n + length xs] = map f (map fst (enumerate n xs))"
    by (simp only: map_fst_enumerate)
  also have "\<dots> = map (\<lambda>x. f (fst x)) (enumerate n xs)"
    by (simp only: map_map comp_def)
  finally show ?thesis by (rule sym)
qed

lemma ids_variationRecords:
  "map tv_id (variationRecords nanoid clock feedback tone variations)
     = map nanoid [0..<length variations]"
proof -
  have "map tv_id (variationRecords nanoid clock feedback tone variations)
          = map (\<lambda>x. nanoid (fst x)) (enumerate 0 variations)"
    by (simp add: variationRecords_def case_prod_unfold comp_def)
  also have "\<dots> = map nanoid [0..<0 + length variations]"
    by (rule map_enumerate_fst)
  finally show ?thesis by simp
qed

lemma fresh_for_shared:
  assumes "\<forall>i. nanoid i \<notin> used_ids s" and "textVariations (emptyHistory s) = Some tvs"
  shows "nanoid i \<notin> tv_id ` set tvs"
proof -
  from assms(2) have "tv_id ` set tvs \<subseteq> used_ids s"
    by (simp add: used_ids_def log_ids_def)
  with assms(1) show ?thesis by blast
qed

lemma fresh_for_stored:
  assumes "\<forall>i. nanoid i \<notin> used_ids s" and "db s pid = Some p"
      and "post_textVariations p = Some tvs"
  shows "nanoid i \<notin> tv_id ` set tvs"
proof -
  from assms(2) have "p \<in> ran (db s)" by (rule ranI)
  moreover from assms(3) have "log_ids (post_textVariations p) = tv_id ` set tvs"
    by (simp add: log_ids_def)
  ultimately have "tv_id ` set tvs \<subseteq> (\<Union>p \<in> ran (db s). log_ids (post_textVariations p))"
    by blast
  then have "tv_id ` set tvs \<subseteq> used_ids s"
    by (simp add: used_ids_def le_supI2)
  with assms(1) show ?thesis by blast
qed

lemma distinct_append_records:
  assumes "distinct (map tv_id tvs)" and "inj nanoid"
      and "\<forall>i. nanoid i \<notin> tv_id ` set tvs"
  shows "distinct (map tv_id (tvs @ variationRecords nanoid clock feedback tone variations))"
proof -
  have "distinct (map nanoid [0..<length variations])"
    using assms(2) by (simp add: distinct_map inj_on_def inj_def)
  moreover have "set (map tv_id tvs) \<inter> set (map nanoid [0..<length variations]) = {}"
  proof -
    have "x \<notin> set (map tv_id tvs)" if "x \<in> set (map nanoid [0..<length variations])" for x
    proof -
      from that obtain i where "x = nanoid i" by auto
      with assms(3) show ?thesis by simp
    qed
    then show ?thesis by blast
  qed
  ultimately show ?thesis
    using assms(1) by (simp add: ids_variationRecords)
qed

lemma ids_ok_create:
  assumes ok: "ids_ok s" and inj: "inj nanoid" and fresh: "\<forall>i. nanoid i \<notin> used_ids s"
  shows "ids_ok (snd (createTextVariations gen nanoid clock now postId feedback tone s))"
proof (cases "fst (createTextVariations gen nanoid clock now postId feedback tone s)")
  case (Inl e)
  then have "snd (createTextVariations gen nanoid clock now postId feedback tone s) = s"
    by (auto simp: createTextVariations_def Let_def split: option.splits sum.splits prod.splits)
  with ok show ?thesis by simp
next
  case (Inr res)
  let ?run = "createTextVariations gen nanoid clock now postId feedback tone s"
  let ?new = "variationRecords nanoid clock feedback tone"
  from createTextVariations_success [OF Inr]
  obtain P tags variations h tvs where
    P: "db s postId = Some P" and
    tags: "parse_hashtags (hashtags P) = Inr tags" and
    gen: "gen (pillar P, mainIdea P, hook P, caption P, tags) feedback tone = Inr variations" and
    h: "deref s (parseHistory (history P)) = Object h" "textVariations h = Some tvs" and
    db': "db (snd ?run) = (db s)(postId \<mapsto>
            P\<lparr>history := Some (Json (Object (h\<lparr>textVariations := Some (tvs @ ?new variations)\<rparr>))),
              updatedAt := now\<rparr>)"
    by blast
  have tvs_ok: "distinct (map tv_id tvs)" and tvs_fresh: "\<forall>i. nanoid i \<notin> tv_id ` set tvs"
  proof -
    show "distinct (map tv_id tvs)" 
    proof (cases "parseHistory (history P)")
      case EmptyHistoryRef
      with h have "textVariations (emptyHistory s) = Some tvs" by (simp add: deref_def)
      with ids_ok_shared [OF ok] show ?thesis by simp
    next
      case (FreshValue v)
      with h have "post_textVariations P = Some tvs"
        by (auto simp: deref_def parseHistory_def post_textVariations_def
            split: option.splits json_text.splits)
      with ids_ok_stored [OF ok P] show ?thesis by simp
    qed
    show "\<forall>i. nanoid i \<notin> tv_id ` set tvs"
    proof (cases "parseHistory (history P)")
      case EmptyHistoryRef
      with h have "textVariations (emptyHistory s) = Some tvs" by (simp add: deref_def)
      with fresh_for_shared [OF fresh] show ?thesis by blast
    next
      case (FreshValue v)
      with h have "post_textVariations P = Some tvs"
        by (auto simp: deref_def parseHistory_def post_textVariations_def
            split: option.splits json_text.splits)
      with fresh_for_stored [OF fresh P] show ?thesis by blast
    qed
  qed
  have new_ok: "distinct (map tv_id (tvs @ ?new variations))"
    using distinct_append_records [OF tvs_ok inj tvs_fresh] .
  have shared: "textVariations (emptyHistory (snd ?run)) = textVariations (emptyHistory s) \<or>
                textVariations (emptyHistory (snd ?run)) = Some (tvs @ ?new variations)"
    using P tags gen h
    by (cases "parseHistory (history P)")
       (auto simp: createTextVariations_def getPost_def Let_def push_textVariations_def
          read_textVariations_def write_textVariations_def assign_def deref_def update_posts_def
          split: option.splits)
  show ?thesis
    unfolding ids_ok_def
  proof (intro conjI allI impI)
    from shared ok new_ok show "distinct_ids (textVariations (emptyHistory (snd ?run)))"
      by (auto simp: ids_ok_def distinct_ids_def)
  next
    fix pid p assume "db (snd ?run) pid = Some p"
    with db' ok new_ok show "distinct_ids (post_textVariations p)"
      by (auto simp: ids_ok_def distinct_ids_def post_textVariations_def split: if_splits)
  qed
qed

lemma emptyHistory_update_posts: "emptyHistory (update_posts pid f s) = emptyHistory s"
  by (simp add: update_posts_def split: option.splits)

lemma ids_ok_cong:
  assumes "db s' = db s"
      and "textVariations (emptyHistory s') = textVariations (emptyHistory s)"
  shows "ids_ok s' = ids_ok s"
  using assms by (simp add: ids_ok_def)

lemma push_imageVariations_frame:
  assumes "push_imageVariations entry r s = Inr (r1, s1)"
  shows "db s1 = db s \<and> textVariations (emptyHistory s1) = textVariations (emptyHistory s)"
proof (cases r)
  case EmptyHistoryRef
  with assms show ?thesis
    by (auto simp: push_imageVariations_def read_imageVariations_def write_imageVariations_def
        assign_def deref_def split: option.splits)
next
  case (FreshValue v)
  with assms show ?thesis
    by (auto simp: push_imageVariations_def read_imageVariations_def write_imageVariations_def
        assign_def deref_def split: option.splits history_value.splits)
qed

lemma deref_distinct_ids:
  assumes "ids_ok s" and "db s pid = Some P" and "deref s (parseHistory (history P)) = Object h"
  shows "distinct_ids (textVariations h)"
proof (cases "parseHistory (history P)")
  case EmptyHistoryRef
  with assms(3) have "h = emptyHistory s" by (simp add: deref_def)
  with assms(1) show ?thesis by (simp add: ids_ok_def)
next
  case (FreshValue v)
  with assms(3) have "post_textVariations P = textVariations h"
    by (auto simp: deref_def parseHistory_def post_textVariations_def
        split: option.splits json_text.splits)
  moreover from assms(1,2) have "distinct_ids (post_textVariations P)"
    unfolding ids_ok_def by blast
  ultimately show ?thesis by simp
qed

lemma ids_ok_regenerate:
  assumes ok: "ids_ok s"
  shows "ids_ok (snd (regenerateImage genPrompt genPhoto genCard nanoid now_iso now postId feedback s))"
proof (cases "db s postId")
  case None
  then show ?thesis using ok by (simp add: regenerateImage_def getPost_def)
next
  case (Some P)
  let ?run = "regenerateImage genPrompt genPhoto genCard nanoid now_iso now postId feedback s"
  let ?r = "parseHistory (history P)"
  show ?thesis
  proof (cases "genPrompt (pillar P, mainIdea P, hook P, caption P, imageStyle P, imagePrompt P)
                  feedback")
    case (Inl e)
    with Some show ?thesis using ok by (simp add: regenerateImage_def getPost_def)
  next
    case np: (Inr newPrompt)
    let ?archived = "\<lparr>iv_id = nanoid 0, iv_imagePrompt = imagePrompt P, iv_imageUrl = imageUrl P,
                      iv_imageKey = imageKey P, iv_feedback = ''original'',
                      iv_createdAt = createdAt P, iv_accepted = False\<rparr>"
    let ?first = "if truthy (imageUrl P) then push_imageVariations ?archived ?r s else Inr (?r, s)"
    show ?thesis
    proof (cases ?first)
      case (Inl e)
      with Some np show ?thesis using ok by (simp add: regenerateImage_def getPost_def Let_def)
    next
      case (Inr rs1)
      obtain r1 s1 where rs1: "rs1 = (r1, s1)" by (cases rs1)
      with Inr have first: "?first = Inr (r1, s1)" by simp
      have frame1: "db s1 = db s" "textVariations (emptyHistory s1) = textVariations (emptyHistory s)"
        using first push_imageVariations_frame [of ?archived ?r s r1 s1]
        by (auto split: if_splits)
      then have ok1: "ids_ok s1" using ok ids_ok_cong by blast
      show ?thesis
      proof (cases "generateImage genPhoto genCard (imageStyle P) newPrompt (post_id P)")
        case (Inl e)
        with Some np first have "snd ?run = s1"
          by (simp add: regenerateImage_def getPost_def Let_def)
        with ok1 show ?thesis by simp
      next
        case up: (Inr uploaded)
        let ?new = "\<lparr>iv_id = nanoid (if truthy (imageUrl P) then 1 else 0),
                     iv_imagePrompt = newPrompt,
                     iv_imageUrl = Some (up_url uploaded), iv_imageKey = Some (up_key uploaded),
                     iv_feedback = feedback, iv_createdAt = now_iso, iv_accepted = True\<rparr>"
        show ?thesis
        proof (cases "push_imageVariations ?new r1 s1")
          case (Inl e)
          with Some np first up have "snd ?run = s1"
            by (simp add: regenerateImage_def getPost_def Let_def)
          with ok1 show ?thesis by simp
        next
          case (Inr rs2)
          obtain r2 s2 where rs2: "rs2 = (r2, s2)" by (cases rs2)
          with Inr have second: "push_imageVariations ?new r1 s1 = Inr (r2, s2)" by simp
          from push_imageVariations_frame [OF second] frame1
          have frame2: "textVariations (emptyHistory s2) = textVariations (emptyHistory s)"
            by simp
          from Some np first up second
          have run: "?run = (Inr (getPost (update_posts postId
                        (\<lambda>p. p\<lparr>imagePrompt := newPrompt,
                               imageUrl := Some (up_url uploaded),
                               imageKey := Some (up_key uploaded),
                               history := Some (stringify_history s2 r2),
                               updatedAt := now\<rparr>) s2) postId),
                     update_posts postId
                        (\<lambda>p. p\<lparr>imagePrompt := newPrompt,
                               imageUrl := Some (up_url uploaded),
                               imageKey := Some (up_key uploaded),
                               history := Some (stringify_history s2 r2),
                               updatedAt := now\<rparr>) s2)"
            by (simp add: regenerateImage_def getPost_def Let_def)
          have res: "fst ?run = Inr (getPost (snd ?run) postId)"
            by (simp add: run)
          from regenerateImage_success [OF res] Some
          obtain h ivs' where
            h: "deref s ?r = Object h" and
            db': "db (snd ?run) = (db s)(postId \<mapsto>
                    P\<lparr>imagePrompt := newPrompt,
                      imageUrl := Some (up_url uploaded),
                      imageKey := Some (up_key uploaded),
                      history := Some (Json (Object (h\<lparr>imageVariations := Some ivs'\<rparr>))),
                      updatedAt := now\<rparr>)"
            using np up by auto
          have shared: "textVariations (emptyHistory (snd ?run)) = textVariations (emptyHistory s)"
            using frame2 by (simp add: run emptyHistory_update_posts)
          have read_ok: "distinct_ids (textVariations h)"
            using deref_distinct_ids [OF ok Some h] .
          show ?thesis
            unfolding ids_ok_def
          proof (intro conjI allI impI)
            from shared ok show "distinct_ids (textVariations (emptyHistory (snd ?run)))"
              by (simp add: ids_ok_def)
          next
            fix pid p assume p: "db (snd ?run) pid = Some p"
            show "distinct_ids (post_textVariations p)"
            proof (cases "pid = postId")
              case True
              with p db' read_ok show ?thesis by (auto simp: post_textVariations_def)
            next
              case False
              with p db' have "db s pid = Some p" by simp
              with ok show ?thesis unfolding ids_ok_def by blast
            qed
          qed
        qed
      qed
    qed
  qed
qed

lemma ids_ok_update_posts:
  assumes "ids_ok s" and "\<And>p. history (f p) = history p"
  shows "ids_ok (update_posts pid f s)"
  unfolding ids_ok_def
proof (intro conjI allI impI)
  from assms(1) show "distinct_ids (textVariations (emptyHistory (update_posts pid f s)))"
    by (simp add: emptyHistory_update_posts ids_ok_def)
next
  fix k p assume p: "db (update_posts pid f s) k = Some p"
  then obtain q where q: "db s k = Some q" and hist: "history p = history q"
    using assms(2) by (auto simp: db_update_posts split: option.splits if_splits)
  from assms(1) q have "distinct_ids (post_textVariations q)" unfolding ids_ok_def by blast
  with hist show "distinct_ids (post_textVariations p)" by (simp add: post_textVariations_def)
qed

lemma ids_ok_status_changes:
  assumes "ids_ok s"
  shows "ids_ok (snd (approvePost pid user now s))"
    and "ids_ok (snd (rejectPost pid user now s))"
    and "ids_ok (snd (markPostAsPosted pid user now s))"
  using assms
  by (simp_all add: approvePost_def rejectPost_def markPostAsPosted_def Let_def ids_ok_update_posts)

lemma ids_ok_deletePost:
  assumes "ids_ok s"
  shows "ids_ok (snd (deletePost deleteImageFromR2 pid s))"
proof -
  have "snd (deletePost deleteImageFromR2 pid s) = s\<lparr>db := (db s)(pid := None)\<rparr>"
    by (auto simp: deletePost_def Let_def split: option.splits sum.splits)
  moreover have "ids_ok (s\<lparr>db := (db s)(pid := None)\<rparr>)"
    using assms unfolding ids_ok_def by (auto split: if_splits)
  ultimately show ?thesis by simp
qed

lemma ids_ok_process_contents:
  "ids_ok s \<Longrightarrow> ids_ok (snd (process_contents gp gc nanoid batch creator now i contents created s))"
proof (induction contents arbitrary: i created s)
  case Nil
  then show ?case by simp
next
  case (Cons c cs)
  let ?p = "newPost batch creator now c (nanoid i) (tryGenerateImage gp gc c (nanoid i))"
  show ?case
  proof (cases "insert_post ?p s")
    case (Inl e)
    with Cons.prems show ?thesis by (simp add: Let_def)
  next
    case (Inr qs)
    obtain q s1 where qs: "qs = (q, s1)" by (cases qs)
    with Inr have ins: "insert_post ?p s = Inr (q, s1)" by simp
    from insert_post_Inr [OF ins] have s1: "q = ?p" "s1 = s\<lparr>db := (db s)(nanoid i \<mapsto> ?p)\<rparr>"
      by simp_all
    have "post_textVariations ?p = None" by (simp add: post_textVariations_def newPost_def)
    with Cons.prems have "ids_ok s1"
      unfolding ids_ok_def s1(2) by (auto simp: distinct_ids_def split: if_splits)
    from Cons.IH [OF this] ins show ?thesis by (simp add: Let_def)
  qed
qed

lemma ids_ok_generatePostsBatch:
  assumes "ids_ok s"
  shows "ids_ok (snd (generatePostsBatch genPosts gp gc nanoid now customPrompt count creator s))"
proof (cases "genPosts (\<not> truthy customPrompt) customPrompt count")
  case (Inl e)
  with assms show ?thesis by (simp add: generatePostsBatch_def)
next
  case (Inr contents)
  then have "snd (generatePostsBatch genPosts gp gc nanoid now customPrompt count creator s)
               = snd (process_contents gp gc nanoid (nanoid 0) creator now 1 contents [] s)"
    by (simp add: generatePostsBatch_def Let_def split: prod.splits sum.splits)
  with ids_ok_process_contents [OF assms] show ?thesis by simp
qed

lemma ids_ok_reload:
  assumes "ids_ok s"
  shows "ids_ok (s\<lparr>emptyHistory := initial_emptyHistory\<rparr>)"
  using assms by (simp add: ids_ok_def distinct_ids_def initial_emptyHistory_def)

lemma reachable_ids_ok: "reachable s \<Longrightarrow> ids_ok s"
proof (induction rule: reachable.induct)
  case loaded
  show ?case by (rule ids_ok_no_posts)
next
  case (reloaded s)
  then show ?case by (simp add: ids_ok_reload)
next
  case (generated s genPosts gp gc nanoid now customPrompt count creator)
  then show ?case by (simp add: ids_ok_generatePostsBatch)
next
  case (approved s pid user now)
  then show ?case by (simp add: ids_ok_status_changes)
next
  case (rejected s pid user now)
  then show ?case by (simp add: ids_ok_status_changes)
next
  case (posted s pid user now)
  then show ?case by (simp add: ids_ok_status_changes)
next
  case (deleted s deleteImageFromR2 pid)
  then show ?case by (simp add: ids_ok_deletePost)
next
  case (varied s nanoid gen clock now postId feedback tone)
  then show ?case by (simp add: ids_ok_create)
next
  case (accepted s postId vid now)
  then show ?case by (simp add: ids_ok_accept)
next
  case (regenerated s genPrompt gp gc nanoid now_iso now postId feedback)
  then show ?case by (simp add: ids_ok_regenerate)
qed


lemma ids_ok_posted_with_history:
  assumes "distinct (map tv_id tvs)"
  shows "ids_ok (posted_with_history tvs)"
  using assms
  by (auto simp: ids_ok_def distinct_ids_def post_textVariations_def posted_with_history_def
      initial_emptyHistory_def split: if_splits)

subsection \<open>The state after the image of the first of two fresh posts was regenerated\<close>

lemma after_image_A_db:
  "db after_image_for_A ''B'' = Some (example_post ''B'')"
  by (simp add: after_image_for_A_def two_fresh_posts_def regenerate_defs collaborator_defs
        example_defs)

lemma after_image_A_emptyHistory:
  "emptyHistory after_image_for_A =
     \<lparr>textVariations = Some [],
      imageVariations = Some
        [\<lparr>iv_id = ''ni'', iv_imagePrompt = ''a kitchen'', iv_imageUrl = Some ''https://cdn/A'',
          iv_imageKey = Some ''posts/A'', iv_feedback = ''original'', iv_createdAt = 100,
          iv_accepted = False\<rparr>,
         \<lparr>iv_id = ''nii'', iv_imagePrompt = ''improved: warmer'',
          iv_imageUrl = Some ''https://cdn/new-A'', iv_imageKey = Some ''posts/new-A'',
          iv_feedback = ''warmer'', iv_createdAt = 300, iv_accepted = True\<rparr>]\<rparr>"
  by (simp add: after_image_for_A_def two_fresh_posts_def regenerate_defs collaborator_defs
        example_defs One_nat_def)

subsection \<open>What a successful \<^verbatim>\<open>regenerateImage\<close> stores\<close>

text \<open>
  A successful \<^verbatim>\<open>regenerateImage\<close> stores the image-variation list it read
  (the post's stored list, whenever the stored history is a JSON object holding one),
  followed by the archived original, if the prior \<^verbatim>\<open>imageUrl\<close> is truthy, and by
  the new image.
\<close>

lemma regenerateImage_appends:
  assumes ok: "fst (regenerateImage genPrompt genPhoto genCard nanoid now_iso now postId feedback s)
                 = Inr res"
      and P: "getPost s postId = Some P"
  shows "\<exists>newPrompt uploaded ivs archived new P'.
           read_imageVariations s (parseHistory (history P)) = Inr ivs \<and>
           (\<forall>l. post_imageVariations P = Some l \<longrightarrow> ivs = l) \<and>
           genPrompt (pillar P, mainIdea P, hook P, caption P, imageStyle P, imagePrompt P) feedback
             = Inr newPrompt \<and>
           generateImage genPhoto genCard (imageStyle P) newPrompt (post_id P) = Inr uploaded \<and>
           archived = \<lparr>iv_id = nanoid 0,
                       iv_imagePrompt = imagePrompt P,
                       iv_imageUrl = imageUrl P,
                       iv_imageKey = imageKey P,
                       iv_feedback = ''original'',
                       iv_createdAt = createdAt P,
                       iv_accepted = False\<rparr> \<and>
           new = \<lparr>iv_id = nanoid (if truthy (imageUrl P) then 1 else 0),
                  iv_imagePrompt = newPrompt,
                  iv_imageUrl = Some (up_url uploaded),
                  iv_imageKey = Some (up_key uploaded),
                  iv_feedback = feedback,
                  iv_createdAt = now_iso,
                  iv_accepted = True\<rparr> \<and>
           res = Some P' \<and>
           getPost (snd (regenerateImage genPrompt genPhoto genCard nanoid now_iso now postId
                           feedback s)) postId = Some P' \<and>
           post_imageVariations P'
             = Some (ivs @ (if truthy (imageUrl P) then [archived, new] else [new])) \<and>
           map_option length (post_imageVariations P')
             = Some (length ivs + (if truthy (imageUrl P) then 2 else 1))"
proof -
  from regenerateImage_success [OF ok] P
  obtain newPrompt uploaded h ivs where
    np: "genPrompt (pillar P, mainIdea P, hook P, caption P, imageStyle P, imagePrompt P) feedback
           = Inr newPrompt" and
    up: "generateImage genPhoto genCard (imageStyle P) newPrompt (post_id P) = Inr uploaded" and
    h: "deref s (parseHistory (history P)) = Object h" "imageVariations h = Some ivs" and
    db': "db (snd (regenerateImage genPrompt genPhoto genCard nanoid now_iso now postId feedback s)) =
             (db s)(postId \<mapsto>
                P\<lparr>imagePrompt := newPrompt,
                  imageUrl := Some (up_url uploaded),
                  imageKey := Some (up_key uploaded),
                  history := Some (Json (Object (h\<lparr>imageVariations :=
                      Some (ivs @
                            (if truthy (imageUrl P)
                             then [\<lparr>iv_id = nanoid 0,
                                    iv_imagePrompt = imagePrompt P,
                                    iv_imageUrl = imageUrl P,
                                    iv_imageKey = imageKey P,
                                    iv_feedback = ''original'',
                                    iv_createdAt = createdAt P,
                                    iv_accepted = False\<rparr>]
                             else []) @
                            [\<lparr>iv_id = nanoid (if truthy (imageUrl P) then 1 else 0),
                              iv_imagePrompt = newPrompt,
                              iv_imageUrl = Some (up_url uploaded),
                              iv_imageKey = Some (up_key uploaded),
                              iv_feedback = feedback,
                              iv_createdAt = now_iso,
                              iv_accepted = True\<rparr>])\<rparr>))),
                  updatedAt := now\<rparr>)" and
    res: "res = db (snd (regenerateImage genPrompt genPhoto genCard nanoid now_iso now postId
                           feedback s)) postId"
    by (auto simp: getPost_def)
  have rd: "read_imageVariations s (parseHistory (history P)) = Inr ivs"
    using h by (simp add: read_imageVariations_def)
  have stored: "\<forall>l. post_imageVariations P = Some l \<longrightarrow> ivs = l"
    using read_stored_imageVariations [of P _ s] rd by auto
  show ?thesis
    apply (rule exI [of _ newPrompt])
    apply (rule exI [of _ uploaded])
    apply (rule exI [of _ ivs])
    using np up rd stored res db'
    apply (simp add: getPost_def post_imageVariations_def)
    done
qed

section \<open>Properties\<close>

subsection \<open>Accepting a text variation\<close>

text \<open>
  Claim C1. Immediately after a successful \<^verbatim>\<open>acceptTextVariation(postId, variationId)\<close>
  exactly one entry of the post's \<^verbatim>\<open>textVariations\<close> has \<^verbatim>\<open>accepted = true\<close>,
  that entry is the one with id \<^verbatim>\<open>variationId\<close>, and every other entry has
  \<^verbatim>\<open>accepted = false\<close>. This holds in every state in which the ids within each
  text-variation log are pairwise distinct (\<open>ids_ok\<close>): the state of a freshly loaded
  module is such a state and every operation keeps the property, \<^verbatim>\<open>createTextVariations\<close>
  as long as \<^verbatim>\<open>nanoid()\<close> returns ids that are new (\<open>reachable_ids_ok\<close>).
\<close>

theorem acceptTextVariation_flags:
  assumes inv: "ids_ok s"
      and ok: "fst (acceptTextVariation postId vid now s) = Inr res"
  shows "\<exists>P' tvs'.
           res = Some P' \<and>
           getPost (snd (acceptTextVariation postId vid now s)) postId = Some P' \<and>
           post_textVariations P' = Some tvs' \<and>
           length (filter tv_accepted tvs') = 1 \<and>
           (\<exists>v\<in>set tvs'. tv_id v = vid) \<and>
           (\<forall>v\<in>set tvs'. tv_accepted v = (tv_id v = vid))"
proof -
  from acceptTextVariation_success [OF ok]
  obtain P h tvs V where
    P: "db s postId = Some P" and
    h: "deref s (parseHistory (history P)) = Object h" "textVariations h = Some tvs" and
    V: "find (\<lambda>v. tv_id v = vid) tvs = Some V" and
    res: "res = Some (P\<lparr>hook := tv_hook V, caption := tv_caption V,
                         hashtags := Some (Json (tv_hashtags V)),
                         history := Some (Json (Object (h\<lparr>textVariations := Some (mark_accepted vid tvs)\<rparr>))),
                         updatedAt := now\<rparr>)" and
    db': "db (snd (acceptTextVariation postId vid now s)) = (db s)(postId \<mapsto> the res)"
    by blast
  let ?tvs' = "mark_accepted vid tvs"
  from deref_distinct_ids [OF inv P h(1)] h(2) have dist: "distinct (map tv_id tvs)"
    by (simp add: distinct_ids_def)
  from V have Vin: "V \<in> set tvs" "tv_id V = vid" using find_Some_set by fastforce+
  have flags: "\<forall>v\<in>set ?tvs'. tv_accepted v = (tv_id v = vid)"
    by (auto simp: mark_accepted_def)
  have ex: "\<exists>v\<in>set ?tvs'. tv_id v = vid"
    using Vin by (force simp: mark_accepted_def)
  have acc: "filter tv_accepted ?tvs' = mark_accepted vid (filter (\<lambda>v. tv_id v = tv_id V) tvs)"
    using Vin(2) by (simp add: mark_accepted_def filter_map comp_def)
  have one: "length (filter tv_accepted ?tvs') = 1"
    using filter_unique [OF dist Vin(1)]
    by (simp add: acc) (simp add: mark_accepted_def)
  show ?thesis
    using res db' flags ex one
    by (simp add: getPost_def post_textVariations_def)
qed

text \<open>
  Accepting the second of three variations of a posted post: the flags are
  false, true, false.
\<close>

theorem acceptTextVariation_flags_witness:
  "\<exists>P' tvs'.
     fst (acceptTextVariation ''A'' ''v2'' 300 (posted_with_history three_variations)) = Inr (Some P') \<and>
     getPost (snd (acceptTextVariation ''A'' ''v2'' 300 (posted_with_history three_variations))) ''A''
       = Some P' \<and>
     post_textVariations P' = Some tvs' \<and>
     map tv_id tvs' = [''v1'', ''v2'', ''v3''] \<and>
     map tv_accepted tvs' = [False, True, False] \<and>
     length (filter tv_accepted tvs') = 1"
proof -
  let ?s' = "snd (acceptTextVariation ''A'' ''v2'' 300 (posted_with_history three_variations))"
  have inv: "ids_ok (posted_with_history three_variations)"
    by (rule ids_ok_posted_with_history) (simp add: example_defs)
  have ok: "fst (acceptTextVariation ''A'' ''v2'' 300 (posted_with_history three_variations))
              = Inr (getPost ?s' ''A'')"
    by (simp add: accept_defs example_defs)
  have stored: "Option.bind (getPost ?s' ''A'') post_textVariations
                  = Some (mark_accepted ''v2'' three_variations)"
    by (simp add: accept_defs example_defs post_textVariations_def mark_accepted_def)
  from acceptTextVariation_flags [OF inv ok] obtain P' tvs' where
    P': "getPost ?s' ''A'' = Some P'" "post_textVariations P' = Some tvs'" and
    one: "length (filter tv_accepted tvs') = 1"
    by blast
  from P' stored have tvs': "tvs' = mark_accepted ''v2'' three_variations" by simp
  have ids: "map tv_id tvs' = [''v1'', ''v2'', ''v3'']"
    by (simp add: tvs' mark_accepted_def example_defs)
  have flags: "map tv_accepted tvs' = [False, True, False]"
    by (simp add: tvs' mark_accepted_def example_defs)
  from ok P' ids flags one show ?thesis by simp
qed

text \<open>
  Claim C2. Let \<open>V\<close> be a text variation in the stored history of post \<open>P\<close>, in a
  state in which the ids within each text-variation log are pairwise distinct
  (\<open>ids_ok\<close>, which holds in every state the operations reach,
  \<open>reachable_ids_ok\<close>). A successful \<^verbatim>\<open>acceptTextVariation(P.id, V.id)\<close> sets the
  post's hook, caption and hashtags to exactly \<open>V\<close>'s. Accepting the same variation
  again, at time \<open>now'\<close>, succeeds and returns and stores the same post with
  \<^verbatim>\<open>updatedAt\<close> set to \<open>now'\<close>: the canonical fields and the acceptance flags are
  the same as after accepting it once.
\<close>

theorem acceptTextVariation_copies_and_idempotent:
  assumes inv: "ids_ok s"
      and ok: "fst (acceptTextVariation postId (tv_id V) now s) = Inr res"
      and P: "getPost s postId = Some P"
      and tvs: "post_textVariations P = Some tvs"
      and V: "V \<in> set tvs"
  shows "\<exists>P'.
           res = Some P' \<and>
           hook P' = tv_hook V \<and> caption P' = tv_caption V \<and>
           hashtags P' = Some (Json (tv_hashtags V)) \<and>
           post_textVariations P' = Some (mark_accepted (tv_id V) tvs) \<and>
           fst (acceptTextVariation postId (tv_id V) now'
                  (snd (acceptTextVariation postId (tv_id V) now s)))
             = Inr (Some (P'\<lparr>updatedAt := now'\<rparr>)) \<and>
           getPost (snd (acceptTextVariation postId (tv_id V) now'
                           (snd (acceptTextVariation postId (tv_id V) now s)))) postId
             = Some (P'\<lparr>updatedAt := now'\<rparr>)"
proof -
  let ?vid = "tv_id V"
  let ?s1 = "snd (acceptTextVariation postId ?vid now s)"
  from acceptTextVariation_success [OF ok]
  obtain P0 h tvs0 F where
    P0: "db s postId = Some P0" and
    h: "deref s (parseHistory (history P0)) = Object h" "textVariations h = Some tvs0" and
    F: "find (\<lambda>v. tv_id v = ?vid) tvs0 = Some F" and
    res: "res = Some (P0\<lparr>hook := tv_hook F, caption := tv_caption F,
                         hashtags := Some (Json (tv_hashtags F)),
                         history := Some (Json (Object (h\<lparr>textVariations := Some (mark_accepted ?vid tvs0)\<rparr>))),
                         updatedAt := now\<rparr>)" and
    db1: "db ?s1 = (db s)(postId \<mapsto> the res)"
    by blast
  from P P0 have [simp]: "P0 = P" by (simp add: getPost_def)
  from read_stored_textVariations [OF tvs, of s] h have [simp]: "tvs0 = tvs"
    by (simp add: read_textVariations_def)
  from ids_ok_stored [OF inv P0] tvs have dist: "distinct (map tv_id tvs)" by simp
  from find_distinct [OF dist V] F have [simp]: "F = V" by simp
  define P' where "P' = the res"
  have res': "res = Some P'" by (simp add: P'_def res)
  have P'1: "db ?s1 postId = Some P'" by (simp add: db1 P'_def)
  have P'2: "history P' = Some (Json (Object (h\<lparr>textVariations := Some (mark_accepted ?vid tvs)\<rparr>)))"
    by (simp add: P'_def res)
  have fields: "hook P' = tv_hook V" "caption P' = tv_caption V"
               "hashtags P' = Some (Json (tv_hashtags V))"
    by (simp_all add: P'_def res)
  have log: "post_textVariations P' = Some (mark_accepted ?vid tvs)"
    by (simp add: post_textVariations_def P'2)
  have F': "find (\<lambda>v. tv_id v = ?vid) (mark_accepted ?vid tvs) = Some (V\<lparr>tv_accepted := True\<rparr>)"
    using F by (simp add: find_mark_accepted)
  have again: "P'\<lparr>hook := tv_hook V, caption := tv_caption V,
                   hashtags := Some (Json (tv_hashtags V)),
                   history := Some (Json (Object (h\<lparr>textVariations := Some (mark_accepted ?vid tvs)\<rparr>))),
                   updatedAt := now'\<rparr> = P'\<lparr>updatedAt := now'\<rparr>"
    by (simp add: P'_def res)
  have second: "acceptTextVariation postId ?vid now' ?s1 =
                  (Inr (Some (P'\<lparr>updatedAt := now'\<rparr>)),
                   ?s1\<lparr>db := (db ?s1)(postId \<mapsto> P'\<lparr>updatedAt := now'\<rparr>)\<rparr>)"
    using acceptTextVariation_stored [OF P'1 P'2 _ F', of now'] again
    by (simp add: mark_accepted_idem)
  show ?thesis
    using res' fields log second by (simp add: getPost_def)
qed

text \<open>
  Accepting the second of three variations copies its hook, caption and hashtags;
  accepting it again at time 400 changes \<^verbatim>\<open>updatedAt\<close> only.
\<close>

theorem acceptTextVariation_copies_and_idempotent_witness:
  "\<exists>P'.
     fst (acceptTextVariation ''A'' ''v2'' 300 (posted_with_history three_variations))
       = Inr (Some P') \<and>
     hook P' = ''H2'' \<and> caption P' = ''cH2'' \<and> hashtags P' = Some (Json [''tag'', ''H2'']) \<and>
     map_option (map tv_accepted) (post_textVariations P') = Some [False, True, False] \<and>
     fst (acceptTextVariation ''A'' ''v2'' 400
            (snd (acceptTextVariation ''A'' ''v2'' 300 (posted_with_history three_variations))))
       = Inr (Some (P'\<lparr>updatedAt := 400\<rparr>))"
proof -
  let ?s = "posted_with_history three_variations"
  let ?V = "example_variation ''v2'' ''H2''"
  let ?P = "(example_post ''A'')
              \<lparr>status := Posted,
               history := Some (Json (Object \<lparr>textVariations = Some three_variations,
                                             imageVariations = Some []\<rparr>))\<rparr>"
  have inv: "ids_ok ?s"
    by (rule ids_ok_posted_with_history) (simp add: example_defs)
  have vid: "tv_id ?V = ''v2''" by (simp add: example_variation_def)
  have ok: "fst (acceptTextVariation ''A'' (tv_id ?V) 300 ?s)
              = Inr (getPost (snd (acceptTextVariation ''A'' (tv_id ?V) 300 ?s)) ''A'')"
    by (simp add: accept_defs example_defs)
  have P: "getPost ?s ''A'' = Some ?P"
    by (simp add: getPost_def posted_with_history_def)
  have stored: "post_textVariations ?P = Some three_variations"
    by (simp add: post_textVariations_def)
  have V: "?V \<in> set three_variations" by (simp add: three_variations_def)
  have flags: "map tv_accepted (mark_accepted ''v2'' three_variations) = [False, True, False]"
    by (simp add: mark_accepted_def example_defs)
  from acceptTextVariation_copies_and_idempotent [OF inv ok P stored V, of 400]
  obtain P' where
    "getPost (snd (acceptTextVariation ''A'' (tv_id ?V) 300 ?s)) ''A'' = Some P'"
    "hook P' = tv_hook ?V" "caption P' = tv_caption ?V"
    "hashtags P' = Some (Json (tv_hashtags ?V))"
    "post_textVariations P' = Some (mark_accepted (tv_id ?V) three_variations)"
    "fst (acceptTextVariation ''A'' (tv_id ?V) 400 (snd (acceptTextVariation ''A'' (tv_id ?V) 300 ?s)))
       = Inr (Some (P'\<lparr>updatedAt := 400\<rparr>))"
    using ok by auto
  with ok flags show ?thesis
    by (simp add: vid) (simp add: example_variation_def)
qed

subsection \<open>Regenerating the image\<close>

text \<open>
  Claim C3. On a post whose stored history is a JSON object, a successful
  \<^verbatim>\<open>regenerateImage\<close> appends the archived original and the new image as the claim
  says (\<open>regenerateImage_appends\<close>). On a post whose history is absent it appends them
  to the module's \<^verbatim>\<open>emptyHistory\<close> object, which is empty only until an operation has
  pushed onto it: after the image of post \<open>A\<close> was regenerated, regenerating the
  image of post \<open>B\<close>, which has an image and no history, stores four entries for
  \<open>B\<close>, the two of \<open>A\<close> and its own, where it had none.
\<close>

theorem regenerateImage_grows_by_four:
  "map_option history (getPost after_image_for_A ''B'') = Some None \<and>
   map_option imageUrl (getPost after_image_for_A ''B'') = Some (Some ''https://cdn/B'') \<and>
   fst (regenerateImage example_genPrompt example_genPhoto failing_genCard (example_nanoid ''m'')
          400 401 ''B'' ''cooler'' after_image_for_A)
     = Inr (getPost (snd (regenerateImage example_genPrompt example_genPhoto failing_genCard
                            (example_nanoid ''m'') 400 401 ''B'' ''cooler'' after_image_for_A))
              ''B'') \<and>
   map_option (map iv_id)
     (Option.bind
        (getPost (snd (regenerateImage example_genPrompt example_genPhoto failing_genCard
                         (example_nanoid ''m'') 400 401 ''B'' ''cooler'' after_image_for_A)) ''B'')
        post_imageVariations)
     = Some [''ni'', ''nii'', ''mi'', ''mii''] \<and>
   map_option (map iv_feedback)
     (Option.bind
        (getPost (snd (regenerateImage example_genPrompt example_genPhoto failing_genCard
                         (example_nanoid ''m'') 400 401 ''B'' ''cooler'' after_image_for_A)) ''B'')
        post_imageVariations)
     = Some [''original'', ''warmer'', ''original'', ''cooler'']"
  by (simp add: after_image_A_db after_image_A_emptyHistory regenerate_defs collaborator_defs
        example_defs post_imageVariations_def One_nat_def)

subsection \<open>Generating text variations\<close>

text \<open>
  Claim C4. A successful \<^verbatim>\<open>createTextVariations\<close> stores the text-variation list
  that the operation read through \<^verbatim>\<open>parseHistory\<close> (the post's stored list, whenever
  the stored history is a JSON object holding one), followed by one new entry for each
  variation the generator returned, in the generator's order, each with the
  generator's hook, caption and hashtags, the caller's feedback and
  \<^verbatim>\<open>accepted = false\<close>. The stored post differs from the prior one in
  \<^verbatim>\<open>history\<close> and \<^verbatim>\<open>updatedAt\<close> only, so hook, caption, hashtags and status are
  unchanged, and no other post changes.
\<close>

theorem createTextVariations_appends:
  assumes ok: "fst (createTextVariations gen nanoid clock now postId feedback tone s) = Inr res"
      and P: "getPost s postId = Some P"
  shows "\<exists>tags variations tvs new P'.
           gen (pillar P, mainIdea P, hook P, caption P, tags) feedback tone = Inr variations \<and>
           read_textVariations s (parseHistory (history P)) = Inr tvs \<and>
           (\<forall>l. post_textVariations P = Some l \<longrightarrow> tvs = l) \<and>
           new = variationRecords nanoid clock feedback tone variations \<and>
           length new = length variations \<and>
           map tv_hook new = map gt_hook variations \<and>
           map tv_caption new = map gt_caption variations \<and>
           map tv_hashtags new = map gt_hashtags variations \<and>
           map tv_feedback new = replicate (length variations) feedback \<and>
           map tv_accepted new = replicate (length variations) False \<and>
           getPost (snd (createTextVariations gen nanoid clock now postId feedback tone s)) postId
             = Some P' \<and>
           post_textVariations P' = Some (tvs @ new) \<and>
           P' = P\<lparr>history := history P', updatedAt := now\<rparr> \<and>
           (\<forall>q. q \<noteq> postId \<longrightarrow>
                getPost (snd (createTextVariations gen nanoid clock now postId feedback tone s)) q
                  = getPost s q)"
proof -
  from createTextVariations_success [OF ok] P
  obtain tags variations h tvs where
    gen: "gen (pillar P, mainIdea P, hook P, caption P, tags) feedback tone = Inr variations" and
    h: "deref s (parseHistory (history P)) = Object h" "textVariations h = Some tvs" and
    db': "db (snd (createTextVariations gen nanoid clock now postId feedback tone s)) =
             (db s)(postId \<mapsto>
                P\<lparr>history := Some (Json (Object (h\<lparr>textVariations :=
                       Some (tvs @ variationRecords nanoid clock feedback tone variations)\<rparr>))),
                  updatedAt := now\<rparr>)"
    by (auto simp: getPost_def)
  have rd: "read_textVariations s (parseHistory (history P)) = Inr tvs"
    using h by (simp add: read_textVariations_def)
  have stored: "\<forall>l. post_textVariations P = Some l \<longrightarrow> tvs = l"
    using read_stored_textVariations [of P _ s] rd by auto
  show ?thesis
    apply (rule exI [of _ tags])
    apply (rule exI [of _ variations])
    apply (rule exI [of _ tvs])
    using gen rd stored db'
    apply (simp add: getPost_def post_textVariations_def variationRecords_fields
             length_variationRecords)
    done
qed

text \<open>
  Three generated variations after three stored ones, on a posted post: six entries,
  none accepted, and hook, caption, hashtags and status as before.
\<close>

theorem createTextVariations_appends_witness:
  "\<exists>P'.
     getPost (snd (createTextVariations generate_three (example_nanoid ''n'') (\<lambda>i. 300) 300
                     ''A'' ''shorter'' (Some Spicy) (posted_with_history three_variations))) ''A''
       = Some P' \<and>
     map_option (map tv_id) (post_textVariations P')
       = Some [''v1'', ''v2'', ''v3'', ''ni'', ''nii'', ''niii''] \<and>
     map_option (map tv_accepted) (post_textVariations P')
       = Some [False, False, False, False, False, False] \<and>
     hook P' = ''A'' \<and> caption P' = ''a'' \<and> hashtags P' = Some (Json [''parenting'']) \<and>
     status P' = Posted \<and> updatedAt P' = 300"
proof -
  let ?s = "posted_with_history three_variations"
  let ?run = "createTextVariations generate_three (example_nanoid ''n'') (\<lambda>i. 300) 300
                ''A'' ''shorter'' (Some Spicy) ?s"
  let ?P = "(example_post ''A'')
              \<lparr>status := Posted,
               history := Some (Json (Object \<lparr>textVariations = Some three_variations,
                                             imageVariations = Some []\<rparr>))\<rparr>"
  have ok: "fst ?run = Inr (map (\<lambda>v. \<lparr>res_id = tv_id v, res_hook = tv_hook v,
                                       res_caption = tv_caption v,
                                       res_hashtags = tv_hashtags v\<rparr>)
                              (variationRecords (example_nanoid ''n'') (\<lambda>i. 300) ''shorter''
                                 (Some Spicy)
                                 [example_generated ''H1'', example_generated ''H2'',
                                  example_generated ''H3'']))"
    by (simp add: create_defs collaborator_defs example_defs)
  have P: "getPost ?s ''A'' = Some ?P"
    by (simp add: getPost_def posted_with_history_def)
  have rd: "read_textVariations ?s (parseHistory (history ?P)) = Inr three_variations"
    by (simp add: read_textVariations_def parseHistory_def deref_def)
  have gen: "generate_three (pillar ?P, mainIdea ?P, hook ?P, caption ?P, tags) ''shorter''
               (Some Spicy)
             = Inr [example_generated ''H1'', example_generated ''H2'', example_generated ''H3'']"
    for tags
    by (simp add: generate_three_def)
  from createTextVariations_appends [OF ok P] rd gen
  obtain P' where
    P': "getPost (snd ?run) ''A'' = Some P'" and
    tvs: "post_textVariations P' =
            Some (three_variations @
                  variationRecords (example_nanoid ''n'') (\<lambda>i. 300) ''shorter'' (Some Spicy)
                    [example_generated ''H1'', example_generated ''H2'', example_generated ''H3''])" and
    frame: "P' = ?P\<lparr>history := history P', updatedAt := 300\<rparr>"
    by auto
  have ids: "map_option (map tv_id) (post_textVariations P')
               = Some [''v1'', ''v2'', ''v3'', ''ni'', ''nii'', ''niii'']"
    by (simp add: tvs variationRecords_def collaborator_defs example_defs)
  have flags: "map_option (map tv_accepted) (post_textVariations P')
               = Some [False, False, False, False, False, False]"
    by (simp add: tvs variationRecords_def collaborator_defs example_defs)
  have canon: "hook P' = ''A''" "caption P' = ''a''" "hashtags P' = Some (Json [''parenting''])"
              "status P' = Posted" "updatedAt P' = 300"
    by (subst frame, simp add: example_defs)+
  from P' ids flags canon show ?thesis by simp
qed

text \<open>
  The generator's output schema admits an array of any length. Where it returns two
  variations, the call succeeds, returns two results and appends two entries to the
  empty stored list.
\<close>

theorem createTextVariations_two_variations_counterexample:
  "Option.bind (getPost (posted_with_history []) ''A'') post_textVariations = Some [] \<and>
   map_sum (\<lambda>e. e) (map res_id)
     (fst (createTextVariations generate_two (example_nanoid ''n'') (\<lambda>i. 300) 300
             ''A'' ''shorter'' None (posted_with_history [])))
     = Inr [''ni'', ''nii''] \<and>
   map_option (map tv_id)
     (Option.bind
        (getPost (snd (createTextVariations generate_two (example_nanoid ''n'') (\<lambda>i. 300) 300
                         ''A'' ''shorter'' None (posted_with_history []))) ''A'')
        post_textVariations)
     = Some [''ni'', ''nii'']"
  by (simp add: create_defs collaborator_defs example_defs post_textVariations_def)

subsection \<open>The shared \<^verbatim>\<open>emptyHistory\<close> object\<close>

text \<open>
  Claim C5. \<^verbatim>\<open>acceptTextVariation\<close> fails with \<open>NotFound\<close> and writes nothing when
  the post is missing (\<open>acceptTextVariation_NotFound\<close>), and fails with
  \<open>VariationNotFound\<close> and writes nothing when the post's stored history holds no
  entry of that id (\<open>acceptTextVariation_VariationNotFound\<close>). It does not do so for
  a post whose history is absent, once the module has generated text variations for
  another post whose history was absent: post \<open>B\<close> has no history, hence no text
  variation, yet accepting on \<open>B\<close> the id of the first variation generated for post
  \<open>A\<close> succeeds and replaces \<open>B\<close>'s hook \<open>A\<close> by that variation's hook \<open>H1\<close>.
\<close>

theorem acceptTextVariation_accepts_foreign_variation:
  "map_option history (getPost after_variations_for_A ''B'') = Some None \<and>
   map_option hook (getPost after_variations_for_A ''B'') = Some ''A'' \<and>
   fst (acceptTextVariation ''B'' ''ai'' 300 after_variations_for_A)
     = Inr (getPost (snd (acceptTextVariation ''B'' ''ai'' 300 after_variations_for_A)) ''B'') \<and>
   map_option hook (getPost (snd (acceptTextVariation ''B'' ''ai'' 300 after_variations_for_A)) ''B'')
     = Some ''H1''"
  by (simp add: after_A_db after_A_emptyHistory accept_defs variationRecords_def
        collaborator_defs example_defs)

text \<open>
  Claim C6. An absent history is read as the module's \<^verbatim>\<open>emptyHistory\<close> object, which
  is empty only until an operation has pushed onto it. After text variations were
  generated for post \<open>A\<close>, whose history was absent, generating three variations for
  post \<open>B\<close>, whose history is absent, stores six entries for \<open>B\<close>: the three of
  \<open>A\<close> and its own.
\<close>

theorem shared_emptyHistory_leaks_into_next_post:
  "map_option history (getPost after_variations_for_A ''B'') = Some None \<and>
   map_option (map tv_id)
     (Option.bind
        (getPost (snd (createTextVariations generate_three (example_nanoid ''b'') (\<lambda>i. 300) 300
                         ''B'' ''bolder'' None after_variations_for_A)) ''B'')
        post_textVariations)
     = Some [''ai'', ''aii'', ''aiii'', ''bi'', ''bii'', ''biii'']"
  by (simp add: getPost_def after_A_db after_A_emptyHistory create_defs collaborator_defs
        example_defs post_textVariations_def)

text \<open>
  A history text that is valid JSON for something other than an object with the two
  arrays, \<^verbatim>\<open>null\<close> for one, passes \<^verbatim>\<open>parseHistory\<close> as it is, and each of the
  three operations then raises a \<^verbatim>\<open>TypeError\<close>.
\<close>

lemma null_history_raises_TypeError:
  "fst (createTextVariations generate_three (example_nanoid ''n'') (\<lambda>i. 300) 300
          ''A'' ''shorter'' None null_history_post) = Inl TypeError \<and>
   fst (acceptTextVariation ''A'' ''v1'' 300 null_history_post) = Inl TypeError \<and>
   fst (regenerateImage example_genPrompt example_genPhoto failing_genCard (example_nanoid ''n'')
          300 301 ''A'' ''warmer'' null_history_post) = Inl TypeError"
  by (simp add: null_history_post_def create_defs accept_defs regenerate_defs collaborator_defs
        acceptTextVariation_def example_defs)

subsection \<open>Status\<close>

text \<open>
  Claim C7. \<^verbatim>\<open>acceptTextVariation\<close>, whether it succeeds or fails, leaves every post
  of the table in the table with the status it had; a post that is \<^verbatim>\<open>posted\<close> stays
  \<^verbatim>\<open>posted\<close>.
\<close>

theorem acceptTextVariation_preserves_status:
  assumes "getPost s q = Some P"
  shows "\<exists>P'. getPost (snd (acceptTextVariation postId vid now s)) q = Some P' \<and>
              status P' = status P"
proof (cases "fst (acceptTextVariation postId vid now s)")
  case (Inl e)
  then show ?thesis using assms acceptTextVariation_failure by simp
next
  case (Inr res)
  from acceptTextVariation_success [OF Inr] assms show ?thesis
    by (auto simp: getPost_def)
qed

text \<open>
  Accepting a variation on a posted post replaces the hook \<open>A\<close> by \<open>H2\<close> and leaves
  the status \<^verbatim>\<open>posted\<close>.
\<close>

theorem acceptTextVariation_preserves_status_witness:
  "map_option status (getPost (posted_with_history three_variations) ''A'') = Some Posted \<and>
   map_option hook (getPost (posted_with_history three_variations) ''A'') = Some ''A'' \<and>
   (\<exists>P'. getPost (snd (acceptTextVariation ''A'' ''v2'' 300 (posted_with_history three_variations)))
            ''A'' = Some P' \<and>
          status P' = Posted \<and> hook P' = ''H2'')"
proof -
  let ?s = "posted_with_history three_variations"
  let ?P = "(example_post ''A'')
              \<lparr>status := Posted,
               history := Some (Json (Object \<lparr>textVariations = Some three_variations,
                                             imageVariations = Some []\<rparr>))\<rparr>"
  have P: "getPost ?s ''A'' = Some ?P"
    by (simp add: getPost_def posted_with_history_def)
  have before: "status ?P = Posted" "hook ?P = ''A''"
    by (simp_all add: example_defs)
  have after: "map_option hook (getPost (snd (acceptTextVariation ''A'' ''v2'' 300 ?s)) ''A'')
                 = Some ''H2''"
    by (simp add: accept_defs example_defs)
  from acceptTextVariation_preserves_status [OF P, of "''A''" "''v2''" 300] before
  obtain P' where "getPost (snd (acceptTextVariation ''A'' ''v2'' 300 ?s)) ''A'' = Some P'"
    "status P' = Posted" by auto
  with after P before show ?thesis by auto
qed

text \<open>
  Claim C8. When no post has the given id, \<^verbatim>\<open>approvePost\<close>, \<^verbatim>\<open>rejectPost\<close> and
  \<^verbatim>\<open>markPostAsPosted\<close> do not raise: each returns no post (\<^verbatim>\<open>undefined\<close>), and
  leaves the state as it was.
\<close>

theorem status_change_missing_post:
  assumes "getPost s pid = None"
  shows "approvePost pid user now s = (Inr None, s) \<and>
         rejectPost pid user now s = (Inr None, s) \<and>
         markPostAsPosted pid user now s = (Inr None, s)"
  using assms
  by (simp add: approvePost_def rejectPost_def markPostAsPosted_def update_posts_def getPost_def)

theorem status_change_missing_post_witness:
  "getPost no_posts ''missing'' = None \<and>
   approvePost ''missing'' None 1 no_posts = (Inr None, no_posts) \<and>
   rejectPost ''missing'' None 1 no_posts = (Inr None, no_posts) \<and>
   markPostAsPosted ''missing'' None 1 no_posts = (Inr None, no_posts)"
proof -
  have h: "getPost no_posts ''missing'' = None"
    by (simp add: getPost_def no_posts_def)
  show ?thesis
    using h status_change_missing_post [OF h, of None 1] by simp
qed

text \<open>On the empty table the three operations return \<open>Inr None\<close>, not the error.\<close>

theorem status_change_not_NotFound_counterexample:
  "fst (approvePost ''missing'' None 1 no_posts) = Inr None \<and>
   fst (rejectPost ''missing'' None 1 no_posts) = Inr None \<and>
   fst (markPostAsPosted ''missing'' None 1 no_posts) = Inr None \<and>
   Inr None \<noteq> (Inl NotFound :: error + Post option)"
  by (simp add: approvePost_def rejectPost_def markPostAsPosted_def update_posts_def getPost_def
        no_posts_def)

subsection \<open>Generating a batch\<close>

text \<open>
  Claim C9. Where \<^verbatim>\<open>generatePostsBatch\<close> returns a batch, it holds one post for each
  generated candidate, in order; the post of candidate \<open>k\<close> is in the table under
  its id, has status \<^verbatim>\<open>draft\<close> and the batch id, and is built from that candidate
  and the outcome of that candidate's image generation alone, with
  \<^verbatim>\<open>imageUrl\<close> and \<^verbatim>\<open>imageKey\<close> null where the generation failed. Whatever the
  image collaborators answer, for however many candidates they fail, the call does
  not fail.
\<close>

theorem generatePostsBatch_tolerates_image_failure:
  assumes ok: "fst (generatePostsBatch genPosts gp gc nanoid now customPrompt count creator s)
                 = Inr (batch, posts)"
  shows "\<exists>contents.
           genPosts (\<not> truthy customPrompt) customPrompt count = Inr contents \<and>
           batch = nanoid 0 \<and>
           length posts = length contents \<and>
           (\<forall>k<length contents.
              getPost (snd (generatePostsBatch genPosts gp gc nanoid now customPrompt count creator s))
                      (nanoid (Suc k)) = Some (posts ! k) \<and>
              posts ! k = newPost batch creator now (contents ! k) (nanoid (Suc k))
                            (tryGenerateImage gp gc (contents ! k) (nanoid (Suc k))) \<and>
              status (posts ! k) = Draft \<and>
              batchId (posts ! k) = batch \<and>
              (isl (generateImage gp gc (gp_imageStyle (contents ! k)) (gp_imagePrompt (contents ! k))
                      (nanoid (Suc k))) \<longrightarrow>
                 imageUrl (posts ! k) = None \<and> imageKey (posts ! k) = None)) \<and>
           (\<forall>gp' gc'.
              \<not> isl (fst (generatePostsBatch genPosts gp' gc' nanoid now customPrompt count creator s)))"
proof -
  let ?run = "generatePostsBatch genPosts gp gc nanoid now customPrompt count creator s"
  from ok obtain contents where
    gen: "genPosts (\<not> truthy customPrompt) customPrompt count = Inr contents"
    by (auto simp: generatePostsBatch_def Let_def split: sum.splits)
  let ?pc = "process_contents gp gc nanoid (nanoid 0) creator now 1 contents [] s"
  from ok gen have pc: "fst ?pc = Inr posts" and batch: "batch = nanoid 0"
    by (auto simp: generatePostsBatch_def Let_def split: sum.splits prod.splits)
  from ok gen have snd_run: "snd ?run = snd ?pc"
    by (auto simp: generatePostsBatch_def Let_def split: sum.splits prod.splits)
  from process_contents_Inr [OF pc]
  have posts: "posts = map (\<lambda>(k, c). newPost (nanoid 0) creator now c (nanoid k)
                                        (tryGenerateImage gp gc c (nanoid k)))
                           (enumerate 1 contents)"
    and rows: "\<forall>j<length contents.
                 db (snd ?pc) (nanoid (1 + j))
                   = Some (newPost (nanoid 0) creator now (contents ! j) (nanoid (1 + j))
                             (tryGenerateImage gp gc (contents ! j) (nanoid (1 + j))))"
    by simp_all
  have len: "length posts = length contents" by (simp add: posts)
  have nth: "\<forall>k<length contents.
               posts ! k = newPost (nanoid 0) creator now (contents ! k) (nanoid (Suc k))
                             (tryGenerateImage gp gc (contents ! k) (nanoid (Suc k)))"
    by (simp add: posts nth_enumerate_eq)
  have each: "\<forall>k<length contents.
              getPost (snd ?run) (nanoid (Suc k)) = Some (posts ! k) \<and>
              posts ! k = newPost batch creator now (contents ! k) (nanoid (Suc k))
                            (tryGenerateImage gp gc (contents ! k) (nanoid (Suc k))) \<and>
              status (posts ! k) = Draft \<and>
              batchId (posts ! k) = batch \<and>
              (isl (generateImage gp gc (gp_imageStyle (contents ! k)) (gp_imagePrompt (contents ! k))
                      (nanoid (Suc k))) \<longrightarrow>
                 imageUrl (posts ! k) = None \<and> imageKey (posts ! k) = None)"
    using nth rows
    by (auto simp: snd_run getPost_def batch newPost_def tryGenerateImage_def isl_def)
  have never: "\<forall>gp' gc'.
      \<not> isl (fst (generatePostsBatch genPosts gp' gc' nanoid now customPrompt count creator s))"
  proof (intro allI)
    fix gp' gc'
    have "isl (fst (process_contents gp' gc' nanoid (nanoid 0) creator now 1 contents [] s))
            = isl (fst ?pc)"
      by (rule process_contents_abort_independent) simp
    with pc have "\<not> isl (fst (process_contents gp' gc' nanoid (nanoid 0) creator now 1 contents [] s))"
      by simp
    then show "\<not> isl (fst (generatePostsBatch genPosts gp' gc' nanoid now customPrompt count creator s))"
      using gen
      by (auto simp: generatePostsBatch_def Let_def isl_def split: sum.splits prod.splits)
  qed
  from gen batch len each never show ?thesis by blast
qed

text \<open>
  Two candidates, and the image service fails for the second: the batch holds two
  posts, the first with an image, the second with null image fields, a draft of the
  same batch and in the table. With the image service failing for both, the call
  still returns.
\<close>

theorem generatePostsBatch_tolerates_image_failure_witness:
  "\<exists>posts.
     fst (generatePostsBatch generate_two_posts example_genPhoto failing_genCard
            (example_nanoid ''p'') 100 None (Some 2) None no_posts)
       = Inr (''pi'', posts) \<and>
     map post_id posts = [''pii'', ''piii''] \<and>
     map imageUrl posts = [Some ''https://cdn/new-pii'', None] \<and>
     map imageKey posts = [Some ''posts/new-pii'', None] \<and>
     status (posts ! 1) = Draft \<and> batchId (posts ! 1) = ''pi'' \<and>
     getPost (snd (generatePostsBatch generate_two_posts example_genPhoto failing_genCard
                     (example_nanoid ''p'') 100 None (Some 2) None no_posts)) ''piii''
       = Some (posts ! 1) \<and>
     \<not> isl (fst (generatePostsBatch generate_two_posts failing_genCard failing_genCard
                   (example_nanoid ''p'') 100 None (Some 2) None no_posts))"
proof -
  let ?run = "generatePostsBatch generate_two_posts example_genPhoto failing_genCard
                (example_nanoid ''p'') 100 None (Some 2) None no_posts"
  let ?posts = "[newPost ''pi'' None 100 (example_contents ! 0) ''pii''
                   (Some ''https://cdn/new-pii'', Some ''posts/new-pii''),
                 newPost ''pi'' None 100 (example_contents ! 1) ''piii'' (None, None)]"
  have ok: "fst ?run = Inr (''pi'', ?posts)"
    by (simp add: batch_defs collaborator_defs generate_two_posts_def example_contents_def
          example_content_def no_posts_def)
  have fields: "map post_id ?posts = [''pii'', ''piii'']"
    "map imageUrl ?posts = [Some ''https://cdn/new-pii'', None]"
    "map imageKey ?posts = [Some ''posts/new-pii'', None]"
    by (simp_all add: newPost_def)
  have id: "example_nanoid ''p'' (Suc 1) = ''piii''"
    by (simp add: example_nanoid_def One_nat_def)
  have gen: "generate_two_posts (\<not> truthy None) None (Some 2) = Inr example_contents"
    by (simp add: generate_two_posts_def)
  from generatePostsBatch_tolerates_image_failure [OF ok] gen
  have each: "\<forall>k<length example_contents.
                getPost (snd ?run) (example_nanoid ''p'' (Suc k)) = Some (?posts ! k) \<and>
                status (?posts ! k) = Draft \<and> batchId (?posts ! k) = ''pi''"
    and never: "\<forall>gp' gc'. \<not> isl (fst (generatePostsBatch generate_two_posts gp' gc'
                   (example_nanoid ''p'') 100 None (Some 2) None no_posts))"
    by auto
  have len: "1 < length example_contents" by (simp add: example_contents_def)
  from each len have "getPost (snd ?run) (example_nanoid ''p'' (Suc 1)) = Some (?posts ! 1) \<and>
                  status (?posts ! 1) = Draft \<and> batchId (?posts ! 1) = ''pi''"
    by blast
  with ok fields never id show ?thesis by simp
qed

subsection \<open>Deleting a post\<close>

text \<open>
  Claim C10. For every id, \<^verbatim>\<open>deletePost(id)\<close> completes without raising an error,
  whatever the image store answers and whether or not a post with that id exists; when
  no post with that id exists, the state, the table with it, is left as it was.
\<close>

theorem deletePost_never_fails:
  "fst (deletePost deleteImageFromR2 pid s) = Inr () \<and>
   (getPost s pid = None \<longrightarrow> snd (deletePost deleteImageFromR2 pid s) = s)"
proof -
  have upd: "db s pid = None \<Longrightarrow> s\<lparr>db := (db s)(pid := None)\<rparr> = s"
    by (simp add: fun_upd_idem)
  show ?thesis
    using upd
    by (auto simp: deletePost_def getPost_def Let_def split: option.splits sum.splits)
qed

theorem deletePost_never_fails_witness:
  "getPost no_posts ''missing'' = None \<and>
   fst (deletePost (\<lambda>k. Inl (Error ''unreachable'')) ''missing'' no_posts) = Inr () \<and>
   snd (deletePost (\<lambda>k. Inl (Error ''unreachable'')) ''missing'' no_posts) = no_posts"
proof -
  have h: "getPost no_posts ''missing'' = None"
    by (simp add: getPost_def no_posts_def)
  show ?thesis
    using h deletePost_never_fails [of "\<lambda>k. Inl (Error ''unreachable'')" "''missing''" no_posts]
    by simp
qed

end
